theory Spec2Isabelle
  imports Main "HOL-Library.Word"
begin

section \<open>The generation session of \<^verbatim>\<open>src/app/page.tsx\<close>\<close>

text \<open>
  The page component \<^verbatim>\<open>Home\<close> keeps the whole session in React state hooks and one
  mutable ref (\<^verbatim>\<open>versionCounter\<close>). Its three operations \<^verbatim>\<open>submit\<close>,
  \<^verbatim>\<open>restoreVersion\<close> and \<^verbatim>\<open>reset\<close>, and the preview modal, are embedded here as
  functions on a record of that state. A handler always runs against the values of the
  latest render, and the state setters it calls are committed together before the next
  handler runs; the model therefore passes one committed state from operation to operation.
  The placeholder rotation and the two DOM refs are display only and are left out.
\<close>

subsection \<open>Strings\<close>

text \<open>
  A JavaScript string is a sequence of UTF-16 code units. \<^verbatim>\<open>String.prototype.trim\<close>
  removes the ECMAScript WhiteSpace and LineTerminator code points from both ends; all
  of them are single code units.
\<close>

type_synonym jsstring = "16 word list"

definition js :: "string \<Rightarrow> jsstring" where
  "js s = map (\<lambda>c. of_nat (of_char c)) s"

definition isWhiteSpace :: "16 word \<Rightarrow> bool" where
  "isWhiteSpace c =
     (c \<in> set [0x09, 0x0A, 0x0B, 0x0C, 0x0D, 0x20, 0xA0, 0x1680,
               0x2000, 0x2001, 0x2002, 0x2003, 0x2004, 0x2005, 0x2006, 0x2007,
               0x2008, 0x2009, 0x200A, 0x2028, 0x2029, 0x202F, 0x205F, 0x3000,
               0xFEFF])"

definition trim :: "jsstring \<Rightarrow> jsstring" where
  "trim s = rev (dropWhile isWhiteSpace (rev (dropWhile isWhiteSpace s)))"

text \<open>Decimal rendering of a status code inside a template literal.\<close>

fun dec :: "nat \<Rightarrow> jsstring" where
  "dec n = (if n < 10 then [of_nat (48 + n)]
            else dec (n div 10) @ [of_nat (48 + n mod 10)])"

declare dec.simps [simp del]

subsection \<open>Data model\<close>

datatype AppState = Idle | Thinking | Rendered | Error

datatype turn_role = User | Assistant

record HistoryTurn =
  role :: turn_role
  content :: jsstring

type_synonym timestamp = int

text \<open>
  \<^verbatim>\<open>UIVersion\<close>. The fields carry the prefix \<open>v_\<close> because \<open>id\<close> is a HOL constant and
  \<open>history\<close> is also a field of the page state. A message is an opaque JSON object, the
  type parameter \<open>'m\<close>. The counter and the ids are JavaScript numbers that only ever
  hold small non-negative integers; they are modelled as \<open>int\<close>.
\<close>

record 'm UIVersion =
  v_id :: int
  v_prompt :: jsstring
  v_messages :: "'m list"
  v_history :: "HistoryTurn list"
  v_timestamp :: timestamp

text \<open>The state hooks of \<^verbatim>\<open>Home\<close> and the ref \<^verbatim>\<open>versionCounter\<close>.\<close>

record 'm Home =
  input :: jsstring
  state :: AppState
  a2uiMessages :: "'m list"
  lastPrompt :: jsstring
  errorMsg :: jsstring
  history :: "HistoryTurn list"
  versions :: "'m UIVersion list"
  activeVersionId :: int
  previewVersion :: "'m UIVersion option"
  versionCounter :: int

definition Home_init :: "'m Home" where
  "Home_init = \<lparr> input = [], state = Idle, a2uiMessages = [], lastPrompt = [],
                 errorMsg = [], history = [], versions = [], activeVersionId = 0,
                 previewVersion = None, versionCounter = 0 \<rparr>"

subsection \<open>The request and what can come back\<close>

text \<open>The body posted to \<^verbatim>\<open>/api/generate\<close>.\<close>

record generate_request =
  req_prompt :: jsstring
  req_history :: "HistoryTurn list"

text \<open>
  A thrown value is either an \<^verbatim>\<open>Error\<close> object with its message or something else.
  The parsed body has the three properties the code reads; \<open>None\<close> is an absent one, and
  \<^verbatim>\<open>error\<close> and \<^verbatim>\<open>text\<close> are strings when present, as the route sends them. A body
  whose parsing rejects, or whose first property access throws, is the \<open>Inl\<close> of
  \<open>json\<close>.
\<close>

datatype thrown = ErrorObj jsstring | NonError

record 'm response_data =
  d_error :: "jsstring option"
  d_messages :: "'m list option"
  d_text :: "jsstring option"

record 'm response =
  ok :: bool
  status :: nat
  json :: "thrown + 'm response_data"

datatype 'm fetch_outcome = Rejected thrown | Resolved "'m response"

definition truthy :: "jsstring option \<Rightarrow> bool" where
  "truthy x = (case x of None \<Rightarrow> False | Some s \<Rightarrow> s \<noteq> [])"

definition no_ui_message :: jsstring where
  "no_ui_message = js ''Claude generated no UI '' @ [0x2014] @ js '' try rephrasing''"

text \<open>
  The checks at the head of the \<^verbatim>\<open>try\<close> block: every \<^verbatim>\<open>throw\<close> and every rejected
  \<^verbatim>\<open>await\<close> is an \<open>Inl\<close>; otherwise the non-empty messages and the body.
\<close>

definition try_fetch :: "'m fetch_outcome \<Rightarrow> thrown + ('m list \<times> 'm response_data)" where
  "try_fetch out =
     (case out of
        Rejected t \<Rightarrow> Inl t
      | Resolved res \<Rightarrow>
          if \<not> ok res then Inl (ErrorObj (js ''Server error: '' @ dec (status res)))
          else (case json res of
                  Inl t \<Rightarrow> Inl t
                | Inr d \<Rightarrow>
                    if truthy (d_error d) then Inl (ErrorObj (the (d_error d)))
                    else (case d_messages d of
                            None \<Rightarrow> Inl (ErrorObj no_ui_message)
                          | Some [] \<Rightarrow> Inl (ErrorObj no_ui_message)
                          | Some (m # ms) \<Rightarrow> Inr (m # ms, d))))"

definition catch_message :: "thrown \<Rightarrow> jsstring" where
  "catch_message t = (case t of ErrorObj m \<Rightarrow> m | NonError \<Rightarrow> js ''Something went wrong'')"

definition a2ui_separator :: jsstring where
  "a2ui_separator = [0x0A] @ js ''---a2ui_JSON---'' @ [0x0A]"

text \<open>The content of the assistant turn; \<open>stringify\<close> stands for \<^verbatim>\<open>JSON.stringify\<close>.\<close>

definition assistant_content ::
  "('m list \<Rightarrow> jsstring) \<Rightarrow> 'm list \<Rightarrow> 'm response_data \<Rightarrow> jsstring" where
  "assistant_content stringify msgs d =
     (if truthy (d_text d) then the (d_text d) @ a2ui_separator @ stringify msgs
      else stringify msgs)"

subsection \<open>submit\<close>

text \<open>
  \<^verbatim>\<open>submit\<close> is an async function. \<open>submit_start\<close> is its part up to the
  \<^verbatim>\<open>await fetch\<close>: it returns the committed state and the request sent, or the
  unchanged state and no request when the guard returns early. \<open>submit_finish\<close> is the
  continuation: it holds the request (the closure's \<^verbatim>\<open>trimmed\<close> and
  \<^verbatim>\<open>historyToSend\<close>), reads the ref and appends to the store as they are when the
  response arrives.
\<close>

definition submit_start ::
  "'m Home \<Rightarrow> jsstring \<Rightarrow> bool \<Rightarrow> 'm Home \<times> generate_request option" where
  "submit_start s prompt isRefinement =
     (let trimmed = trim prompt in
      if trimmed = [] \<or> state s = Thinking then (s, None)
      else
        let s1 = s\<lparr> lastPrompt := trimmed, input := [], state := Thinking, errorMsg := [] \<rparr>;
            s2 = (if \<not> isRefinement
                  then s1\<lparr> a2uiMessages := [], history := [], versions := [],
                           versionCounter := 0 \<rparr>
                  else s1);
            historyToSend = (if isRefinement then history s else [])
        in (s2, Some \<lparr> req_prompt = trimmed, req_history = historyToSend \<rparr>))"

definition submit_finish ::
  "('m list \<Rightarrow> jsstring) \<Rightarrow> 'm Home \<Rightarrow> generate_request \<Rightarrow> 'm fetch_outcome \<Rightarrow> timestamp
     \<Rightarrow> 'm Home" where
  "submit_finish stringify s req out now =
     (case try_fetch out of
        Inl err \<Rightarrow> s\<lparr> errorMsg := catch_message err, state := Error \<rparr>
      | Inr (msgs, d) \<Rightarrow>
          let newHistory = req_history req @
                [\<lparr> role = User, content = req_prompt req \<rparr>,
                 \<lparr> role = Assistant, content = assistant_content stringify msgs d \<rparr>];
              counter = versionCounter s + 1;
              newVersion = \<lparr> v_id = counter, v_prompt = req_prompt req, v_messages = msgs,
                             v_history = newHistory, v_timestamp = now \<rparr>
          in s\<lparr> versionCounter := counter, a2uiMessages := msgs, history := newHistory,
                versions := versions s @ [newVersion], activeVersionId := v_id newVersion,
                state := Rendered \<rparr>)"

text \<open>A call of \<^verbatim>\<open>submit\<close> that runs to its end with nothing in between.\<close>

definition submit ::
  "('m list \<Rightarrow> jsstring) \<Rightarrow> 'm Home \<Rightarrow> jsstring \<Rightarrow> bool \<Rightarrow> 'm fetch_outcome \<Rightarrow> timestamp
     \<Rightarrow> 'm Home" where
  "submit stringify s prompt isRefinement out now =
     (case submit_start s prompt isRefinement of
        (s', None) \<Rightarrow> s'
      | (s', Some req) \<Rightarrow> submit_finish stringify s' req out now)"

subsection \<open>restoreVersion, reset and the preview\<close>

text \<open>
  \<^verbatim>\<open>Array.prototype.findIndex\<close> gives the first index whose element satisfies the
  predicate, or \<open>-1\<close>. \<^verbatim>\<open>slice(0, end)\<close> counts a negative \<open>end\<close> from the end of
  the array and clamps to its bounds.
\<close>

fun findIndex :: "('a \<Rightarrow> bool) \<Rightarrow> 'a list \<Rightarrow> int" where
  "findIndex P [] = -1"
| "findIndex P (x # xs) =
     (if P x then 0 else (let i = findIndex P xs in if i < 0 then -1 else i + 1))"

definition slice0 :: "'a list \<Rightarrow> int \<Rightarrow> 'a list" where
  "slice0 xs e =
     (let len = int (length xs);
          k = (if e < 0 then max (len + e) 0 else min e len)
      in take (nat k) xs)"

definition restoreVersion :: "'m Home \<Rightarrow> 'm UIVersion \<Rightarrow> 'm Home" where
  "restoreVersion s version =
     s\<lparr> a2uiMessages := v_messages version,
        history := v_history version,
        lastPrompt := v_prompt version,
        activeVersionId := v_id version,
        state := Rendered,
        versions := slice0 (versions s)
                      (findIndex (\<lambda>v. v_id v = v_id version) (versions s) + 1),
        versionCounter := v_id version \<rparr>"

definition reset :: "'m Home \<Rightarrow> 'm Home" where
  "reset s = s\<lparr> state := Idle, a2uiMessages := [], input := [], errorMsg := [],
               history := [], versions := [], activeVersionId := 0,
               versionCounter := 0 \<rparr>"

text \<open>
  The timeline calls \<^verbatim>\<open>onSelect = setPreviewVersion\<close> from a pill's click handler,
  which skips the active version. The modal shows the selected version; its close button
  sets the preview back to \<^verbatim>\<open>null\<close>, and its restore button calls
  \<^verbatim>\<open>restoreVersion\<close> with the previewed version and then closes.
\<close>

definition setPreviewVersion :: "'m Home \<Rightarrow> 'm UIVersion option \<Rightarrow> 'm Home" where
  "setPreviewVersion s pv = s\<lparr> previewVersion := pv \<rparr>"

definition pill_click :: "'m Home \<Rightarrow> 'm UIVersion \<Rightarrow> 'm Home" where
  "pill_click s v = (if v_id v \<noteq> activeVersionId s then setPreviewVersion s (Some v) else s)"

definition modal_close :: "'m Home \<Rightarrow> 'm Home" where
  "modal_close s = setPreviewVersion s None"

definition modal_restore :: "'m Home \<Rightarrow> 'm Home" where
  "modal_restore s =
     (case previewVersion s of
        None \<Rightarrow> s
      | Some version \<Rightarrow> modal_close (restoreVersion s version))"

subsection \<open>Sequences of operations\<close>

text \<open>
  A run of the page is a sequence of handler calls. Between the two halves of a
  \<^verbatim>\<open>submit\<close> other handlers may run, so a world holds the page state together with
  the requests that are still outstanding. The events are the handlers the markup
  attaches: a call of \<^verbatim>\<open>submit\<close> (the text area, the arrow button and the chips call it
  with \<^verbatim>\<open>false\<close>, the refine bar with \<^verbatim>\<open>true\<close>), the settling of an outstanding
  fetch, typing into the text area, a click on a timeline pill, the modal's close and
  restore buttons, and \<^verbatim>\<open>reset\<close>. No event is tied to the screen that shows its
  control, so the runs considered include every run of the page.

  The field \<open>origin\<close> is a record of the past that no operation reads: for each snapshot
  of the store, the page state at the moment that snapshot was created. It is cut
  wherever the store is cut.
\<close>

datatype 'm event =
    Submit jsstring bool
  | Settle nat "'m fetch_outcome" timestamp
  | TypeInput jsstring
  | PillClick nat
  | ModalClose
  | ModalRestore
  | Reset

record 'm world =
  home :: "'m Home"
  pending :: "generate_request list"
  origin :: "'m Home list"

definition init_world :: "'m world" where
  "init_world = \<lparr> home = Home_init, pending = [], origin = [] \<rparr>"

fun step :: "('m list \<Rightarrow> jsstring) \<Rightarrow> 'm world \<Rightarrow> 'm event \<Rightarrow> 'm world" where
  "step stringify w (Submit prompt isRefinement) =
     (case submit_start (home w) prompt isRefinement of
        (s', None) \<Rightarrow> w
      | (s', Some req) \<Rightarrow>
          w\<lparr> home := s', pending := pending w @ [req],
             origin := (if isRefinement then origin w else []) \<rparr>)"
| "step stringify w (Settle k out now) =
     (if k < length (pending w)
      then let s' = submit_finish stringify (home w) (pending w ! k) out now
           in w\<lparr> home := s',
                 pending := take k (pending w) @ drop (Suc k) (pending w),
                 origin := (case try_fetch out of
                              Inl err \<Rightarrow> origin w
                            | Inr res \<Rightarrow> origin w @ [s']) \<rparr>
      else w)"
| "step stringify w (TypeInput typed) = w\<lparr> home := (home w)\<lparr> input := typed \<rparr> \<rparr>"
| "step stringify w (PillClick i) =
     (if i < length (versions (home w))
      then w\<lparr> home := pill_click (home w) (versions (home w) ! i) \<rparr>
      else w)"
| "step stringify w ModalClose = w\<lparr> home := modal_close (home w) \<rparr>"
| "step stringify w ModalRestore =
     (case previewVersion (home w) of
        None \<Rightarrow> w
      | Some version \<Rightarrow>
          w\<lparr> home := modal_restore (home w),
             origin := slice0 (origin w)
                         (findIndex (\<lambda>v. v_id v = v_id version) (versions (home w)) + 1) \<rparr>)"
| "step stringify w Reset = w\<lparr> home := reset (home w), origin := [] \<rparr>"

definition run :: "('m list \<Rightarrow> jsstring) \<Rightarrow> 'm world \<Rightarrow> 'm event list \<Rightarrow> 'm world" where
  "run stringify w evs = foldl (step stringify) w evs"

text \<open>
  A sequence of calls of \<^verbatim>\<open>submit\<close>, each running to its end before the next: prompt,
  refinement flag, what the fetch gives and the time. Such a call is successful when
  its prompt is not blank and the response passes every check.
\<close>

type_synonym 'm submission = "jsstring \<times> bool \<times> 'm fetch_outcome \<times> timestamp"

fun submit_all :: "('m list \<Rightarrow> jsstring) \<Rightarrow> 'm Home \<Rightarrow> 'm submission list \<Rightarrow> 'm Home" where
  "submit_all stringify s [] = s"
| "submit_all stringify s ((prompt, isRefinement, out, now) # xs) =
     submit_all stringify (submit stringify s prompt isRefinement out now) xs"

fun successful :: "'m submission \<Rightarrow> bool" where
  "successful (prompt, isRefinement, out, now) =
     (trim prompt \<noteq> [] \<and> (case try_fetch out of Inl err \<Rightarrow> False | Inr res \<Rightarrow> True))"

subsection \<open>The controls of each screen\<close>

text \<open>
  The markup shows one screen per state, and each screen carries its own controls.
  The idle screen has the text area, the arrow button and the chips, which call
  \<^verbatim>\<open>submit\<close> with \<^verbatim>\<open>false\<close>; these are the only calls that are not refinements.
  The rendered screen has the refine bar, which calls \<^verbatim>\<open>submit\<close> with \<^verbatim>\<open>true\<close> when
  its text does not trim to empty, the timeline (when the store holds more than one
  version) and the button for \<^verbatim>\<open>reset\<close>; the error screen has that button too. The
  modal is in the markup whenever a preview is set, whatever the state. \<open>wired s e\<close> says
  that the page in state \<open>s\<close> shows a control whose handler is the event \<open>e\<close>; the
  settling of a fetch needs no control.
\<close>

fun wired :: "'m Home \<Rightarrow> 'm event \<Rightarrow> bool" where
  "wired s (Submit prompt isRefinement) =
     (if isRefinement then state s = Rendered \<and> trim prompt \<noteq> [] else state s = Idle)"
| "wired s (Settle k out now) = True"
| "wired s (TypeInput typed) = (state s = Idle)"
| "wired s (PillClick i) =
     (state s = Rendered \<and> 1 < length (versions s) \<and> i < length (versions s))"
| "wired s ModalClose = (previewVersion s \<noteq> None)"
| "wired s ModalRestore = (previewVersion s \<noteq> None)"
| "wired s Reset = (state s = Rendered \<or> state s = Error)"

text \<open>Every event of the sequence is wired in the state it meets.\<close>

fun all_wired :: "('m list \<Rightarrow> jsstring) \<Rightarrow> 'm world \<Rightarrow> 'm event list \<Rightarrow> bool" where
  "all_wired stringify w [] = True"
| "all_wired stringify w (e # es) =
     (wired (home w) e \<and> all_wired stringify (step stringify w e) es)"

subsection \<open>Invariants\<close>

text \<open>
  The ids of the store count up from one and the counter is the last of them.
\<close>

definition store_ok :: "'m Home \<Rightarrow> bool" where
  "store_ok s =
     (map v_id (versions s) = map int [1..<Suc (length (versions s))] \<and>
      versionCounter s = int (length (versions s)))"

text \<open>
  \<open>born a vs\<close>: the state \<open>a\<close> is one in which the store is \<open>vs\<close> and its last snapshot
  has just been created and shown.
\<close>

definition born :: "'m Home \<Rightarrow> 'm UIVersion list \<Rightarrow> bool" where
  "born a vs =
     (vs \<noteq> [] \<and> versions a = vs \<and> history a = v_history (last vs) \<and>
      versionCounter a = v_id (last vs) \<and> activeVersionId a = v_id (last vs) \<and>
      a2uiMessages a = v_messages (last vs) \<and> state a = Rendered)"

definition world_ok :: "'m world \<Rightarrow> bool" where
  "world_ok w =
     (sorted_wrt (<) (map v_id (versions (home w))) \<and>
      list_all (\<lambda>v. v_id v \<le> versionCounter (home w)) (versions (home w)) \<and>
      length (origin w) = length (versions (home w)) \<and>
      list_all (\<lambda>i. born (origin w ! i) (take (Suc i) (versions (home w))))
        [0..<length (versions (home w))])"

text \<open>
  On the idle screen there is no turn log, no store and nothing shown, and the counter
  is zero.
\<close>

definition idle_clean :: "'m Home \<Rightarrow> bool" where
  "idle_clean s =
     (state s \<noteq> Idle \<or>
      (history s = [] \<and> versions s = [] \<and> versionCounter s = 0 \<and> a2uiMessages s = []))"

text \<open>
  While the state is \<open>Thinking\<close>, the request sent last is outstanding, and it carries
  the last prompt and the turn log as they are now.
\<close>

definition thinking_ctx :: "'m world \<Rightarrow> bool" where
  "thinking_ctx w =
     (state (home w) \<noteq> Thinking \<or>
      (pending w \<noteq> [] \<and> req_history (last (pending w)) = history (home w) \<and>
       req_prompt (last (pending w)) = lastPrompt (home w)))"

text \<open>Every turn log the page holds has an even number of turns.\<close>

definition logs_even :: "'m world \<Rightarrow> bool" where
  "logs_even w =
     (even (length (history (home w))) \<and>
      list_all (\<lambda>v. even (length (v_history v))) (versions (home w)) \<and>
      (case previewVersion (home w) of
         None \<Rightarrow> True
       | Some v \<Rightarrow> even (length (v_history v))) \<and>
      list_all (\<lambda>req. even (length (req_history req))) (pending w))"

subsection \<open>A concrete session\<close>

text \<open>
  The scenario used to instantiate the theorems below: messages are numbers, a generator
  that answers with three fragments, one that cannot be reached, a first prompt and a
  refinement.
\<close>

definition ex_stringify :: "nat list \<Rightarrow> jsstring" where
  "ex_stringify ms = map of_nat ms"

definition ex_ok :: "nat fetch_outcome" where
  "ex_ok = Resolved \<lparr> ok = True, status = 200,
                       json = Inr \<lparr> d_error = None, d_messages = Some [10, 11, 12],
                                    d_text = None \<rparr> \<rparr>"

definition ex_fail :: "nat fetch_outcome" where
  "ex_fail = Rejected (ErrorObj (js ''Failed to fetch''))"

definition ex_s1 :: "nat Home" where
  "ex_s1 = submit ex_stringify Home_init (js ''Build a contact form'') False ex_ok 100"

definition ex_s2 :: "nat Home" where
  "ex_s2 = submit ex_stringify ex_s1 (js ''Add a phone field'') True ex_ok 200"

definition ex_v1 :: "nat UIVersion" where
  "ex_v1 = \<lparr> v_id = 1, v_prompt = js ''Build a contact form'', v_messages = [10, 11, 12],
             v_history = [\<lparr> role = User, content = js ''Build a contact form'' \<rparr>,
                          \<lparr> role = Assistant, content = [10, 11, 12] \<rparr>],
             v_timestamp = 100 \<rparr>"

definition ex_v2 :: "nat UIVersion" where
  "ex_v2 = \<lparr> v_id = 2, v_prompt = js ''Add a phone field'', v_messages = [10, 11, 12],
             v_history = [\<lparr> role = User, content = js ''Build a contact form'' \<rparr>,
                          \<lparr> role = Assistant, content = [10, 11, 12] \<rparr>,
                          \<lparr> role = User, content = js ''Add a phone field'' \<rparr>,
                          \<lparr> role = Assistant, content = [10, 11, 12] \<rparr>],
             v_timestamp = 200 \<rparr>"

definition ex_events :: "nat event list" where
  "ex_events = [Submit (js ''Build a contact form'') False, Settle 0 ex_ok 100,
                Submit (js ''Add a phone field'') True, Settle 0 ex_ok 200]"

definition ex_submissions :: "nat submission list" where
  "ex_submissions = [(js ''Build a contact form'', False, ex_ok, 100),
                     (js ''Add a phone field'', True, ex_ok, 200)]"

definition ex_ok_text :: "nat fetch_outcome" where
  "ex_ok_text = Resolved \<lparr> ok = True, status = 200,
                            json = Inr \<lparr> d_error = None, d_messages = Some [10, 11, 12],
                                         d_text = Some (js ''Done'') \<rparr> \<rparr>"

text \<open>
  A race: with the two versions of the session above on screen, the pill of version 1
  is clicked, a refinement is sent from the refine bar, the modal's restore button is
  pressed before the response arrives, a second refinement is sent, and both responses
  then arrive.
\<close>

definition ex_race_start :: "nat event list" where
  "ex_race_start = [PillClick 0, Submit (js ''Add a phone field'') True, ModalRestore,
                    Submit (js ''Make it dark mode'') True]"

definition ex_race_end :: "nat event list" where
  "ex_race_end = [Settle 0 ex_ok 300, Settle 0 ex_ok 400]"

section \<open>Basic facts about the operations\<close>

lemma submit_start_reject:
  "trim prompt = [] \<or> state s = Thinking \<Longrightarrow> submit_start s prompt r = (s, None)"
  by (auto simp: submit_start_def Let_def)

lemma submit_start_accept:
  "trim prompt \<noteq> [] \<Longrightarrow> state s \<noteq> Thinking \<Longrightarrow>
   submit_start s prompt r =
     ((if r then s\<lparr> lastPrompt := trim prompt, input := [], state := Thinking, errorMsg := [] \<rparr>
       else s\<lparr> lastPrompt := trim prompt, input := [], state := Thinking, errorMsg := [],
                a2uiMessages := [], history := [], versions := [], versionCounter := 0 \<rparr>),
      Some \<lparr> req_prompt = trim prompt, req_history = (if r then history s else []) \<rparr>)"
  by (simp add: submit_start_def Let_def)

lemma submit_start_Some_state:
  "submit_start s p r = (s1, Some req) \<Longrightarrow> state s1 = Thinking"
  by (auto simp: submit_start_def Let_def split: if_splits)

lemma submit_finish_fail:
  "try_fetch out = Inl err \<Longrightarrow>
   submit_finish stringify s req out now = s\<lparr> errorMsg := catch_message err, state := Error \<rparr>"
  by (simp add: submit_finish_def)

lemma submit_finish_ok:
  "try_fetch out = Inr (msgs, d) \<Longrightarrow>
   submit_finish stringify s req out now =
     s\<lparr> versionCounter := versionCounter s + 1, a2uiMessages := msgs,
        history := req_history req @
                [\<lparr> role = User, content = req_prompt req \<rparr>,
                 \<lparr> role = Assistant, content = assistant_content stringify msgs d \<rparr>],
        versions := versions s @
           [\<lparr> v_id = versionCounter s + 1, v_prompt = req_prompt req, v_messages = msgs,
              v_history = req_history req @
                [\<lparr> role = User, content = req_prompt req \<rparr>,
                 \<lparr> role = Assistant, content = assistant_content stringify msgs d \<rparr>],
              v_timestamp = now \<rparr>],
        activeVersionId := versionCounter s + 1,
        state := Rendered \<rparr>"
  by (simp add: submit_finish_def Let_def)

lemma findIndex_ge: "- 1 \<le> findIndex P xs"
  by (induction xs) (auto simp: Let_def)

lemma findIndex_absent: "(\<And>x. x \<in> set xs \<Longrightarrow> \<not> P x) \<Longrightarrow> findIndex P xs = - 1"
  by (induction xs) (auto simp: Let_def)

lemma findIndex_first:
  "P v \<Longrightarrow> (\<And>x. x \<in> set pre \<Longrightarrow> \<not> P x) \<Longrightarrow>
   findIndex P (pre @ v # post) = int (length pre)"
  by (induction pre) (auto simp: Let_def)

lemma slice0_nat: "slice0 xs (int k) = take k xs"
  by (simp add: slice0_def Let_def min_def)

lemma slice0_nat1: "slice0 xs (int k + 1) = take (Suc k) xs"
  using slice0_nat [of xs "Suc k"] by (simp add: add.commute)

lemma restoreVersion_fields:
  "a2uiMessages (restoreVersion s v) = v_messages v"
  "history (restoreVersion s v) = v_history v"
  "lastPrompt (restoreVersion s v) = v_prompt v"
  "activeVersionId (restoreVersion s v) = v_id v"
  "state (restoreVersion s v) = Rendered"
  "versionCounter (restoreVersion s v) = v_id v"
  "input (restoreVersion s v) = input s"
  "errorMsg (restoreVersion s v) = errorMsg s"
  "previewVersion (restoreVersion s v) = previewVersion s"
  by (simp_all add: restoreVersion_def)

lemma restoreVersion_versions_found:
  assumes "versions s = pre @ v # post" and "\<And>x. x \<in> set pre \<Longrightarrow> v_id x \<noteq> v_id v"
  shows "versions (restoreVersion s v) = pre @ [v]"
  using assms findIndex_first [of "\<lambda>u. v_id u = v_id v" v pre post]
  by (simp add: restoreVersion_def slice0_nat1)

lemma restoreVersion_versions_absent:
  assumes "\<And>x. x \<in> set (versions s) \<Longrightarrow> v_id x \<noteq> v_id v"
  shows "versions (restoreVersion s v) = []"
  using assms findIndex_absent [of "versions s" "\<lambda>u. v_id u = v_id v"]
  by (simp add: restoreVersion_def slice0_def)

lemma try_fetch_Inl_iff:
  "(\<exists>err. try_fetch out = Inl err) \<longleftrightarrow>
     (case out of
        Rejected t \<Rightarrow> True
      | Resolved res \<Rightarrow>
          \<not> ok res \<or>
          (case json res of
             Inl t \<Rightarrow> True
           | Inr d \<Rightarrow> truthy (d_error d) \<or> d_messages d = None \<or> d_messages d = Some []))"
  by (auto simp: try_fetch_def split: fetch_outcome.splits sum.splits option.splits list.splits)

lemma ids_contiguous_nth:
  assumes "map v_id xs = map int [1..<Suc n]" and "i < length xs"
  shows "length xs = n" and "v_id (xs ! i) = int i + 1"
proof -
  from assms(1) have "length (map v_id xs) = length (map int [1..<Suc n])" by simp
  then show len: "length xs = n" by simp
  from assms(2) have "v_id (xs ! i) = map v_id xs ! i" by simp
  also have "\<dots> = map int [1..<Suc n] ! i" by (simp add: assms(1))
  also from assms(2) len have "\<dots> = int i + 1" by (simp del: upt_Suc)
  finally show "v_id (xs ! i) = int i + 1" .
qed

lemma ids_contiguous_distinct:
  assumes "map v_id xs = map int [1..<Suc n]"
  shows "distinct (map v_id xs)"
  by (simp add: assms distinct_map)

lemma restoreVersion_contiguous:
  assumes ids: "map v_id (versions s) = map int [1..<Suc n]"
    and mem: "version \<in> set (versions s)"
  shows "1 \<le> v_id version" and "v_id version \<le> int n"
    and "versions (restoreVersion s version) = take (nat (v_id version)) (versions s)"
    and "map v_id (versions (restoreVersion s version)) = map int [1..<Suc (nat (v_id version))]"
proof -
  from mem obtain pre post where sp: "versions s = pre @ version # post"
    by (auto simp: in_set_conv_decomp)
  have d: "distinct (map v_id (versions s))" using ids by (rule ids_contiguous_distinct)
  with sp have pre: "\<And>x. x \<in> set pre \<Longrightarrow> v_id x \<noteq> v_id version"
    by (auto simp: image_iff)
  have i: "length pre < length (versions s)" by (simp add: sp)
  from ids_contiguous_nth [OF ids i] sp
  have len: "length (versions s) = n" and idv: "v_id version = int (length pre) + 1"
    by simp_all
  from idv show "1 \<le> v_id version" by simp
  from idv i len show "v_id version \<le> int n" by simp
  have k: "nat (v_id version) = Suc (length pre)" using idv by simp
  have r: "versions (restoreVersion s version) = pre @ [version]"
    using sp pre by (rule restoreVersion_versions_found)
  then show t: "versions (restoreVersion s version) = take (nat (v_id version)) (versions s)"
    by (simp add: k sp)
  have "map v_id (take (nat (v_id version)) (versions s))
          = take (nat (v_id version)) (map int [1..<Suc n])"
    by (simp only: take_map [symmetric] ids)
  also have "\<dots> = map int (take (Suc (length pre)) [1..<Suc n])"
    by (simp only: take_map k)
  also have "\<dots> = map int [1..<Suc (Suc (length pre))]"
    using i len by (simp add: take_upt del: upt_Suc)
  finally show "map v_id (versions (restoreVersion s version))
                  = map int [1..<Suc (nat (v_id version))]"
    by (simp add: t k)
qed

subsection \<open>The concrete session evaluated\<close>

lemma try_fetch_ex_ok:
  "try_fetch ex_ok = Inr ([10, 11, 12], \<lparr> d_error = None, d_messages = Some [10, 11, 12], d_text = None \<rparr>)"
  by (simp add: try_fetch_def ex_ok_def truthy_def)

lemma try_fetch_ex_fail: "try_fetch ex_fail = Inl (ErrorObj (js ''Failed to fetch''))"
  by (simp add: try_fetch_def ex_fail_def)

lemma trim_ex_prompt1: "trim (js ''Build a contact form'') = js ''Build a contact form''"
  by (simp add: trim_def js_def isWhiteSpace_def)

lemma trim_ex_prompt2: "trim (js ''Add a phone field'') = js ''Add a phone field''"
  by (simp add: trim_def js_def isWhiteSpace_def)

lemma js_nonempty: "js (c # cs) \<noteq> []"
  by (simp add: js_def)

lemma trim_blank: "trim [0x20, 0x09] = []"
  by (simp add: trim_def isWhiteSpace_def)

lemma ex_stringify_msgs: "ex_stringify [10, 11, 12] = [10, 11, 12]"
  by (simp add: ex_stringify_def)

lemma ex_s1_eq:
  "ex_s1 = \<lparr> input = [], state = Rendered, a2uiMessages = [10, 11, 12],
             lastPrompt = js ''Build a contact form'', errorMsg = [],
             history = [\<lparr> role = User, content = js ''Build a contact form'' \<rparr>,
                        \<lparr> role = Assistant, content = [10, 11, 12] \<rparr>],
             versions = [\<lparr> v_id = 1, v_prompt = js ''Build a contact form'',
                           v_messages = [10, 11, 12],
                           v_history = [\<lparr> role = User, content = js ''Build a contact form'' \<rparr>,
                                        \<lparr> role = Assistant, content = [10, 11, 12] \<rparr>],
                           v_timestamp = 100 \<rparr>],
             activeVersionId = 1, previewVersion = None, versionCounter = 1 \<rparr>"
  by (simp add: ex_s1_def submit_def submit_start_accept trim_ex_prompt1 js_nonempty
      Home_init_def submit_finish_ok [OF try_fetch_ex_ok] assistant_content_def truthy_def
      ex_stringify_msgs)

lemma ex_s2_eq:
  "ex_s2 = \<lparr> input = [], state = Rendered, a2uiMessages = [10, 11, 12],
             lastPrompt = js ''Add a phone field'', errorMsg = [],
             history = v_history ex_v2,
             versions = [ex_v1, ex_v2],
             activeVersionId = 2, previewVersion = None, versionCounter = 2 \<rparr>"
  by (simp add: ex_s2_def submit_def submit_start_accept trim_ex_prompt2 js_nonempty
      ex_s1_eq submit_finish_ok [OF try_fetch_ex_ok] assistant_content_def truthy_def
      ex_stringify_msgs ex_v1_def ex_v2_def)

lemma ex_s1_versions: "versions ex_s1 = [ex_v1]" "history ex_s1 = v_history ex_v1"
  "state ex_s1 = Rendered" "activeVersionId ex_s1 = 1" "versionCounter ex_s1 = 1"
  by (simp_all add: ex_s1_eq ex_v1_def)

lemma ex_s2_fields: "versions ex_s2 = [ex_v1, ex_v2]" "history ex_s2 = v_history ex_v2"
  "state ex_s2 = Rendered" "activeVersionId ex_s2 = 2" "versionCounter ex_s2 = 2"
  by (simp_all add: ex_s2_eq)

lemma ex_v_ids: "v_id ex_v1 = 1" "v_id ex_v2 = 2"
  by (simp_all add: ex_v1_def ex_v2_def)

section \<open>Invariants of every run\<close>

lemma findIndex_found:
  "0 \<le> findIndex P xs \<Longrightarrow>
   nat (findIndex P xs) < length xs \<and> P (xs ! nat (findIndex P xs))"
proof (induction xs)
  case Nil
  then show ?case by simp
next
  case (Cons x xs)
  show ?case
  proof (cases "P x")
    case True
    then show ?thesis by simp
  next
    case False
    with Cons.prems have nn: "0 \<le> findIndex P xs"
      by (simp add: Let_def split: if_splits)
    with Cons.IH have ih: "nat (findIndex P xs) < length xs" "P (xs ! nat (findIndex P xs))"
      by simp_all
    from False nn have "findIndex P (x # xs) = findIndex P xs + 1"
      by (simp add: Let_def)
    moreover from nn have "nat (findIndex P xs + 1) = Suc (nat (findIndex P xs))" by simp
    ultimately show ?thesis using ih by simp
  qed
qed

lemma slice0_nonneg: "0 \<le> e \<Longrightarrow> slice0 xs e = take (nat e) xs"
  by (simp add: slice0_def Let_def min_def)

lemma findIndex_cases:
  obtains (absent) "findIndex P xs = - 1"
  | (found) k where "findIndex P xs = int k" "k < length xs" "P (xs ! k)"
proof (cases "0 \<le> findIndex P xs")
  case True
  from findIndex_found [OF True] True show ?thesis
    by (intro found [of "nat (findIndex P xs)"]) simp_all
next
  case False
  with findIndex_ge [of P xs] have "findIndex P xs = - 1" by simp
  then show ?thesis by (rule absent)
qed

lemma origin_unread:
  "home (step stringify (w\<lparr> origin := g \<rparr>) e) = home (step stringify w e) \<and>
   pending (step stringify (w\<lparr> origin := g \<rparr>) e) = pending (step stringify w e)"
  by (cases e) (auto simp: Let_def split: prod.splits option.splits)

lemma origin_settle:
  assumes "k < length (pending w)" and "try_fetch out = Inr res"
  shows "origin (step stringify w (Settle k out now)) =
           origin w @ [home (step stringify w (Settle k out now))]"
  using assms by (simp add: Let_def)

lemma world_ok_iff:
  "world_ok w \<longleftrightarrow>
     sorted_wrt (<) (map v_id (versions (home w))) \<and>
     (\<forall>v \<in> set (versions (home w)). v_id v \<le> versionCounter (home w)) \<and>
     length (origin w) = length (versions (home w)) \<and>
     (\<forall>i < length (versions (home w)).
        born (origin w ! i) (take (Suc i) (versions (home w))))"
  by (auto simp: world_ok_def list_all_iff)

lemma world_ok_init: "world_ok init_world"
  by (simp add: world_ok_def init_world_def Home_init_def)

lemma world_ok_home_frame:
  assumes "world_ok w" and "versions s' = versions (home w)"
    and "versionCounter s' = versionCounter (home w)"
  shows "world_ok (w\<lparr> home := s' \<rparr>)"
  using assms by (simp add: world_ok_iff)

lemma world_ok_cut:
  assumes ok: "world_ok w"
    and vs: "versions s' = take k (versions (home w))"
    and c: "\<forall>v \<in> set (take k (versions (home w))). v_id v \<le> versionCounter s'"
  shows "world_ok (w\<lparr> home := s', origin := take k (origin w) \<rparr>)"
proof -
  from ok have s: "sorted_wrt (<) (map v_id (versions (home w)))"
    and len: "length (origin w) = length (versions (home w))"
    and b: "\<forall>i < length (versions (home w)).
              born (origin w ! i) (take (Suc i) (versions (home w)))"
    by (simp_all add: world_ok_iff)
  have "sorted_wrt (<) (take k (map v_id (versions (home w))))"
    using s by (rule sorted_wrt_take)
  then have s': "sorted_wrt (<) (map v_id (take k (versions (home w))))"
    by (simp add: take_map)
  have b': "\<forall>i < length (take k (versions (home w))).
             born (take k (origin w) ! i) (take (Suc i) (take k (versions (home w))))"
    using b by (simp add: min_def)
  from s' c len b' show ?thesis
    by (simp add: world_ok_iff vs)
qed

lemma world_ok_append:
  assumes ok: "world_ok w"
    and vs: "versions s' = versions (home w) @ [new]"
    and idn: "v_id new = versionCounter (home w) + 1"
    and c: "versionCounter s' = v_id new"
    and b: "born s' (versions (home w) @ [new])"
  shows "world_ok (w\<lparr> home := s', pending := q, origin := origin w @ [s'] \<rparr>)"
proof -
  from ok have s: "sorted_wrt (<) (map v_id (versions (home w)))"
    and le: "\<forall>v \<in> set (versions (home w)). v_id v \<le> versionCounter (home w)"
    and len: "length (origin w) = length (versions (home w))"
    and bo: "\<forall>i < length (versions (home w)).
              born (origin w ! i) (take (Suc i) (versions (home w)))"
    by (simp_all add: world_ok_iff)
  have s': "sorted_wrt (<) (map v_id (versions (home w) @ [new]))"
    using s le idn by (auto simp: sorted_wrt_append)
  have le': "\<forall>v \<in> set (versions (home w) @ [new]). v_id v \<le> versionCounter s'"
    using le idn c by auto
  have b': "\<forall>i < length (versions (home w) @ [new]).
              born ((origin w @ [s']) ! i) (take (Suc i) (versions (home w) @ [new]))"
  proof (intro allI impI)
    fix i assume "i < length (versions (home w) @ [new])"
    then consider "i < length (versions (home w))" | "i = length (versions (home w))"
      by fastforce
    then show "born ((origin w @ [s']) ! i) (take (Suc i) (versions (home w) @ [new]))"
    proof cases
      case 1
      with bo len show ?thesis by (simp add: nth_append)
    next
      case 2
      with b len show ?thesis by (simp add: nth_append)
    qed
  qed
  from s' le' len b' show ?thesis by (simp add: world_ok_iff vs)
qed

lemma world_ok_step:
  fixes w :: "'m world"
  assumes ok: "world_ok w"
  shows "world_ok (step stringify w e)"
proof (cases e)
  case (Submit prompt isRefinement)
  show ?thesis
  proof (cases "trim prompt = [] \<or> state (home w) = Thinking")
    case True
    then show ?thesis using ok Submit by (simp add: submit_start_reject)
  next
    case False
    then have acc: "trim prompt \<noteq> []" "state (home w) \<noteq> Thinking" by simp_all
    show ?thesis
    proof (cases isRefinement)
      case True
      with ok Submit show ?thesis
        by (simp add: submit_start_accept [OF acc] world_ok_iff)
    next
      case False
      with ok Submit show ?thesis
        by (simp add: submit_start_accept [OF acc] world_ok_iff)
    qed
  qed
next
  case (Settle k out now)
  show ?thesis
  proof (cases "k < length (pending w)")
    case False
    with ok Settle show ?thesis by simp
  next
    case True
    show ?thesis
    proof (cases "try_fetch out")
      case (Inl err)
      with ok Settle True show ?thesis
        by (simp add: submit_finish_fail world_ok_iff)
    next
      case (Inr res)
      obtain msgs d where res: "res = (msgs, d)" by (cases res)
      note fin = submit_finish_ok [OF Inr [unfolded res], of stringify "home w" "pending w ! k" now]
      have "world_ok (w\<lparr> home := submit_finish stringify (home w) (pending w ! k) out now,
               pending := take k (pending w) @ drop (Suc k) (pending w),
               origin := origin w @ [submit_finish stringify (home w) (pending w ! k) out now] \<rparr>)"
        by (rule world_ok_append [OF ok, where new =
              "last (versions (submit_finish stringify (home w) (pending w ! k) out now))"])
           (simp_all add: fin born_def)
      with Settle True Inr show ?thesis by (simp add: Let_def)
    qed
  qed
next
  case (TypeInput typed)
  with ok show ?thesis by (simp add: world_ok_iff)
next
  case (PillClick i)
  with ok show ?thesis
    by (simp add: world_ok_iff pill_click_def setPreviewVersion_def)
next
  case ModalClose
  with ok show ?thesis by (simp add: world_ok_iff modal_close_def setPreviewVersion_def)
next
  case ModalRestore
  show ?thesis
  proof (cases "previewVersion (home w)")
    case None
    with ok ModalRestore show ?thesis by simp
  next
    case (Some version)
    let ?P = "\<lambda>v :: 'm UIVersion. v_id v = v_id version"
    let ?vs = "versions (home w)"
    from ok have s: "sorted_wrt (<) (map v_id ?vs)"
      and len: "length (origin w) = length ?vs"
      by (simp_all add: world_ok_iff)
    have nn: "0 \<le> findIndex ?P ?vs + 1" using findIndex_ge [of ?P ?vs] by simp
    define k where "k = nat (findIndex ?P ?vs + 1)"
    have cut: "slice0 ?vs (findIndex ?P ?vs + 1) = take k ?vs"
      "slice0 (origin w) (findIndex ?P ?vs + 1) = take k (origin w)"
      by (simp_all add: slice0_nonneg [OF nn] k_def)
    have bound: "\<forall>v \<in> set (take k ?vs). v_id v \<le> v_id version"
    proof (cases ?P ?vs rule: findIndex_cases)
      case absent
      then show ?thesis by (simp add: k_def)
    next
      case (found j)
      then have kj: "k = Suc j" by (simp add: k_def)
      show ?thesis
      proof
        fix v assume "v \<in> set (take k ?vs)"
        then obtain i where i: "i < k" "i < length ?vs" "v = ?vs ! i"
          by (auto simp: in_set_conv_nth)
        from s have "sorted_wrt (\<le>) (map v_id ?vs)"
          by (rule sorted_wrt_mono_rel [rotated]) simp
        then have "map v_id ?vs ! i \<le> map v_id ?vs ! j"
          using i found(2) kj sorted_nth_mono [of "map v_id ?vs" i j] by simp
        with i found show "v_id v \<le> v_id version" by simp
      qed
    qed
    have "world_ok (w\<lparr> home := modal_close (restoreVersion (home w) version),
                       origin := take k (origin w) \<rparr>)"
      by (rule world_ok_cut [OF ok])
         (simp_all add: modal_close_def setPreviewVersion_def restoreVersion_def cut bound)
    with ModalRestore Some cut show ?thesis by (simp add: modal_restore_def)
  qed
next
  case Reset
  with ok show ?thesis by (simp add: world_ok_iff reset_def)
qed

lemma world_ok_run: "world_ok w \<Longrightarrow> world_ok (run stringify w evs)"
  unfolding run_def
  by (induction evs arbitrary: w) (simp_all add: world_ok_step)

lemma submit_finish_preview:
  "submit_finish stringify (s\<lparr> previewVersion := x \<rparr>) req out now =
     (submit_finish stringify s req out now)\<lparr> previewVersion := x \<rparr>"
  by (cases "try_fetch out") (auto simp: submit_finish_def Let_def)

lemma submit_previewVersion:
  "previewVersion (submit stringify s prompt isRefinement out now) = previewVersion s"
  by (cases "try_fetch out")
     (auto simp: submit_def submit_start_def submit_finish_def Let_def)

lemma world_ok_distinct:
  "world_ok w \<Longrightarrow> distinct (map v_id (versions (home w)))"
  by (simp add: world_ok_iff strict_sorted_iff)

lemma restoreVersion_nth:
  assumes d: "distinct (map v_id (versions s))" and i: "i < length (versions s)"
  shows "versions (restoreVersion s (versions s ! i)) = take (Suc i) (versions s)"
proof -
  have sp: "versions s = take i (versions s) @ versions s ! i # drop (Suc i) (versions s)"
    using i by (simp add: id_take_nth_drop [symmetric])
  have pre: "\<And>x. x \<in> set (take i (versions s)) \<Longrightarrow> v_id x \<noteq> v_id (versions s ! i)"
  proof -
    fix x assume "x \<in> set (take i (versions s))"
    then obtain j where j: "j < i" "x = versions s ! j"
      using i by (auto simp: in_set_conv_nth)
    with d i show "v_id x \<noteq> v_id (versions s ! i)"
      by (auto simp: distinct_conv_nth)
  qed
  from restoreVersion_versions_found [OF sp pre] i show ?thesis
    by (simp add: take_Suc_conv_app_nth)
qed

lemma restore_like_born:
  assumes b: "born a (take (Suc i) (versions s))"
    and d: "distinct (map v_id (versions s))"
    and i: "i < length (versions s)"
    and p: "trim prompt \<noteq> []"
  shows "submit_start a prompt True =
           (a\<lparr> lastPrompt := trim prompt, input := [], state := Thinking, errorMsg := [] \<rparr>,
            Some \<lparr> req_prompt = trim prompt, req_history = v_history (versions s ! i) \<rparr>)"
    and "submit_start (restoreVersion s (versions s ! i)) prompt True =
           (a\<lparr> lastPrompt := trim prompt, input := [], state := Thinking, errorMsg := [],
               previewVersion := previewVersion s \<rparr>,
            Some \<lparr> req_prompt = trim prompt, req_history = v_history (versions s ! i) \<rparr>)"
    and "last (versions a) = versions s ! i"
proof -
  have l: "last (take (Suc i) (versions s)) = versions s ! i"
    using i by (simp add: take_Suc_conv_app_nth)
  from b l have a: "versions a = take (Suc i) (versions s)"
    "history a = v_history (versions s ! i)" "versionCounter a = v_id (versions s ! i)"
    "activeVersionId a = v_id (versions s ! i)" "a2uiMessages a = v_messages (versions s ! i)"
    "state a = Rendered"
    by (simp_all add: born_def)
  from a(1) l show "last (versions a) = versions s ! i" by simp
  have sa: "state a \<noteq> Thinking" by (simp add: a)
  have sr: "state (restoreVersion s (versions s ! i)) \<noteq> Thinking"
    by (simp add: restoreVersion_fields)
  show "submit_start a prompt True =
           (a\<lparr> lastPrompt := trim prompt, input := [], state := Thinking, errorMsg := [] \<rparr>,
            Some \<lparr> req_prompt = trim prompt, req_history = v_history (versions s ! i) \<rparr>)"
    by (simp add: submit_start_accept [OF p sa] a)
  have "(restoreVersion s (versions s ! i))
          \<lparr> lastPrompt := trim prompt, input := [], state := Thinking, errorMsg := [] \<rparr>
        = a\<lparr> lastPrompt := trim prompt, input := [], state := Thinking, errorMsg := [],
             previewVersion := previewVersion s \<rparr>"
    by (rule Home.equality)
       (simp_all add: restoreVersion_fields a restoreVersion_nth [OF d i])
  then show "submit_start (restoreVersion s (versions s ! i)) prompt True =
           (a\<lparr> lastPrompt := trim prompt, input := [], state := Thinking, errorMsg := [],
               previewVersion := previewVersion s \<rparr>,
            Some \<lparr> req_prompt = trim prompt, req_history = v_history (versions s ! i) \<rparr>)"
    by (simp add: submit_start_accept [OF p sr] restoreVersion_fields)
qed

lemma ex_run:
  "run ex_stringify init_world ex_events = \<lparr> home = ex_s2, pending = [], origin = [ex_s1, ex_s2] \<rparr>"
proof -
  have p1: "trim (js ''Build a contact form'') \<noteq> []" by (simp add: trim_ex_prompt1 js_nonempty)
  have p2: "trim (js ''Add a phone field'') \<noteq> []" by (simp add: trim_ex_prompt2 js_nonempty)
  have w1: "step ex_stringify (step ex_stringify init_world
               (Submit (js ''Build a contact form'') False)) (Settle 0 ex_ok 100)
            = \<lparr> home = ex_s1, pending = [], origin = [ex_s1] \<rparr>"
    by (simp add: Let_def init_world_def Home_init_def submit_start_accept js_nonempty trim_ex_prompt1
        submit_finish_ok [OF try_fetch_ex_ok] try_fetch_ex_ok assistant_content_def truthy_def
        ex_stringify_msgs ex_s1_eq)
  have w2: "step ex_stringify (step ex_stringify \<lparr> home = ex_s1, pending = [], origin = [ex_s1] \<rparr>
               (Submit (js ''Add a phone field'') True)) (Settle 0 ex_ok 200)
            = \<lparr> home = ex_s2, pending = [], origin = [ex_s1, ex_s2] \<rparr>"
    by (simp add: Let_def submit_start_accept js_nonempty trim_ex_prompt2 ex_s1_versions
        submit_finish_ok [OF try_fetch_ex_ok] try_fetch_ex_ok assistant_content_def truthy_def
        ex_stringify_msgs ex_s2_eq, simp add: ex_s1_eq ex_v2_def ex_v1_def)
  show ?thesis by (simp only: run_def ex_events_def foldl.simps w1 w2)
qed

lemma upt_int_snoc: "map int [1..<Suc n] @ [int n + 1] = map int [1..<Suc (Suc n)]"
  by (simp del: upt_Suc add: upt_Suc_append)

lemma store_ok_init: "store_ok Home_init"
  by (simp add: store_ok_def Home_init_def)

lemma store_ok_reset: "store_ok (reset s)"
  by (simp add: store_ok_def reset_def)

lemma store_ok_submit:
  assumes "store_ok s"
  shows "store_ok (submit stringify s prompt isRefinement out now)"
proof (cases "trim prompt = [] \<or> state s = Thinking")
  case True
  with assms show ?thesis by (simp add: submit_def submit_start_reject)
next
  case False
  then have acc: "trim prompt \<noteq> []" "state s \<noteq> Thinking" by simp_all
  show ?thesis
  proof (cases "try_fetch out")
    case (Inl err)
    with assms show ?thesis
      by (simp add: submit_def submit_start_accept [OF acc] submit_finish_fail store_ok_def)
  next
    case (Inr res)
    obtain msgs d where res: "res = (msgs, d)" by (cases res)
    from assms show ?thesis
      using upt_int_snoc [of "length (versions s)"] upt_int_snoc [of 0]
      by (simp add: submit_def submit_start_accept [OF acc]
          submit_finish_ok [OF Inr [unfolded res]] store_ok_def del: upt_Suc)
  qed
qed

lemma store_ok_submit_all:
  "store_ok s \<Longrightarrow> store_ok (submit_all stringify s xs)"
  by (induction stringify s xs rule: submit_all.induct) (simp_all add: store_ok_submit)

lemma store_ok_sorted:
  assumes "store_ok s"
  shows "sorted_wrt (<) (map v_id (versions s))"
proof -
  have "sorted_wrt (<) (map int [1..<Suc (length (versions s))])"
    by (simp add: sorted_wrt_map del: upt_Suc)
  with assms show ?thesis by (simp add: store_ok_def)
qed

lemma submit_success:
  assumes "trim prompt \<noteq> []" and "state s \<noteq> Thinking" and "try_fetch out = Inr (msgs, d)"
  shows "submit stringify s prompt isRefinement out now =
     (fst (submit_start s prompt isRefinement))
       \<lparr> versionCounter := (if isRefinement then versionCounter s else 0) + 1,
          a2uiMessages := msgs,
          history := (if isRefinement then history s else []) @
             [\<lparr> role = User, content = trim prompt \<rparr>,
              \<lparr> role = Assistant, content = assistant_content stringify msgs d \<rparr>],
          versions := (if isRefinement then versions s else []) @
             [\<lparr> v_id = (if isRefinement then versionCounter s else 0) + 1,
                v_prompt = trim prompt, v_messages = msgs,
                v_history = (if isRefinement then history s else []) @
                  [\<lparr> role = User, content = trim prompt \<rparr>,
                   \<lparr> role = Assistant, content = assistant_content stringify msgs d \<rparr>],
                v_timestamp = now \<rparr>],
          activeVersionId := (if isRefinement then versionCounter s else 0) + 1,
          state := Rendered \<rparr>"
  using assms by (simp add: submit_def submit_start_accept submit_finish_ok)

lemma submit_all_successful_state:
  assumes "list_all successful xs" and "xs \<noteq> []"  and "state s \<noteq> Thinking"
  shows "state (submit_all stringify s xs) = Rendered \<and> versions (submit_all stringify s xs) \<noteq> []"
  using assms
proof (induction stringify s xs rule: submit_all.induct)
  case (1 stringify s)
  then show ?case by simp
next
  case (2 stringify s prompt isRefinement out now xs)
  from "2.prems" obtain msgs d where ok: "trim prompt \<noteq> []" "try_fetch out = Inr (msgs, d)"
    by (auto split: sum.splits)
  note s1 = submit_success [OF ok(1) "2.prems"(3) ok(2), of stringify isRefinement now]
  have st: "state (submit stringify s prompt isRefinement out now) = Rendered"
    and ne: "versions (submit stringify s prompt isRefinement out now) \<noteq> []"
    by (simp_all add: s1)
  show ?case
  proof (cases xs)
    case Nil
    with st ne show ?thesis by simp
  next
    case (Cons y ys)
    with "2.IH" "2.prems" st show ?thesis by simp
  qed
qed

lemma ex_submit_all: "submit_all ex_stringify Home_init ex_submissions = ex_s2"
  by (simp add: ex_submissions_def ex_s2_def ex_s1_def)

lemma ex_successful: "list_all successful ex_submissions"
  by (simp add: ex_submissions_def try_fetch_ex_ok trim_ex_prompt1 trim_ex_prompt2 js_nonempty)

lemma logs_even_iff:
  "logs_even w \<longleftrightarrow>
     even (length (history (home w))) \<and>
     (\<forall>v \<in> set (versions (home w)). even (length (v_history v))) \<and>
     (\<forall>v. previewVersion (home w) = Some v \<longrightarrow> even (length (v_history v))) \<and>
     (\<forall>req \<in> set (pending w). even (length (req_history req)))"
  by (auto simp: logs_even_def list_all_iff split: option.splits)

lemma logs_even_init: "logs_even init_world"
  by (simp add: logs_even_def init_world_def Home_init_def)

lemma logs_even_step:
  fixes w :: "'m world"
  assumes ok: "logs_even w"
  shows "logs_even (step stringify w e)"
proof (cases e)
  case (Submit prompt isRefinement)
  show ?thesis
  proof (cases "trim prompt = [] \<or> state (home w) = Thinking")
    case True
    then show ?thesis using ok Submit by (simp add: submit_start_reject)
  next
    case False
    then have acc: "trim prompt \<noteq> []" "state (home w) \<noteq> Thinking" by simp_all
    from ok Submit show ?thesis
      by (cases isRefinement) (simp_all add: submit_start_accept [OF acc] logs_even_iff)
  qed
next
  case (Settle k out now)
  show ?thesis
  proof (cases "k < length (pending w)")
    case False
    with ok Settle show ?thesis by simp
  next
    case True
    from ok have pe: "\<forall>req \<in> set (pending w). even (length (req_history req))"
      by (simp add: logs_even_iff)
    with True have ek: "even (length (req_history (pending w ! k)))" by simp
    from pe have rest: "\<forall>req \<in> set (take k (pending w) @ drop (Suc k) (pending w)).
                           even (length (req_history req))"
      by (auto dest: in_set_takeD in_set_dropD)
    show ?thesis
    proof (cases "try_fetch out")
      case (Inl err)
      with ok Settle True rest show ?thesis
        by (simp add: submit_finish_fail logs_even_iff)
    next
      case (Inr res)
      obtain msgs d where res: "res = (msgs, d)" by (cases res)
      from ok Settle True rest ek Inr show ?thesis
        by (simp add: submit_finish_ok [OF Inr [unfolded res]] logs_even_iff Let_def)
    qed
  qed
next
  case (TypeInput typed)
  with ok show ?thesis by (simp add: logs_even_iff)
next
  case (PillClick i)
  with ok show ?thesis
    by (simp add: logs_even_iff pill_click_def setPreviewVersion_def)
next
  case ModalClose
  with ok show ?thesis by (simp add: logs_even_iff modal_close_def setPreviewVersion_def)
next
  case ModalRestore
  show ?thesis
  proof (cases "previewVersion (home w)")
    case None
    with ok ModalRestore show ?thesis by simp
  next
    case (Some version)
    let ?e = "findIndex (\<lambda>v :: 'm UIVersion. v_id v = v_id version) (versions (home w)) + 1"
    have nn: "0 \<le> ?e"
      using findIndex_ge [of "\<lambda>v. v_id v = v_id version" "versions (home w)"] by simp
    from ok have "\<forall>v \<in> set (versions (home w)). even (length (v_history v))"
      by (simp add: logs_even_iff)
    then have cut: "\<forall>v \<in> set (slice0 (versions (home w)) ?e). even (length (v_history v))"
      by (auto simp: slice0_nonneg [OF nn] dest: in_set_takeD)
    from ok Some have ev: "even (length (v_history version))" by (simp add: logs_even_iff)
    from ok ModalRestore Some cut ev show ?thesis
      by (simp add: logs_even_iff modal_restore_def modal_close_def setPreviewVersion_def
          restoreVersion_def)
  qed
next
  case Reset
  with ok show ?thesis by (simp add: logs_even_iff reset_def)
qed

lemma logs_even_run: "logs_even w \<Longrightarrow> logs_even (run stringify w evs)"
  unfolding run_def
  by (induction evs arbitrary: w) (simp_all add: logs_even_step)

subsection \<open>More invariants of every run\<close>

lemma idle_clean_init: "idle_clean Home_init"
  by (simp add: idle_clean_def Home_init_def)

lemma idle_clean_step:
  assumes ok: "idle_clean (home w)"
  shows "idle_clean (home (step stringify w e))"
proof (cases e)
  case (Submit prompt isRefinement)
  show ?thesis
  proof (cases "trim prompt = [] \<or> state (home w) = Thinking")
    case True
    then show ?thesis using ok Submit by (simp add: submit_start_reject)
  next
    case False
    then have acc: "trim prompt \<noteq> []" "state (home w) \<noteq> Thinking" by simp_all
    from Submit show ?thesis
      by (simp add: submit_start_accept [OF acc] idle_clean_def)
  qed
next
  case (Settle k out now)
  show ?thesis
  proof (cases "k < length (pending w)")
    case False
    with ok Settle show ?thesis by simp
  next
    case True
    with Settle show ?thesis
      by (cases "try_fetch out")
         (auto simp: submit_finish_def Let_def idle_clean_def)
  qed
next
  case (TypeInput typed)
  with ok show ?thesis by (simp add: idle_clean_def)
next
  case (PillClick i)
  with ok show ?thesis by (simp add: idle_clean_def pill_click_def setPreviewVersion_def)
next
  case ModalClose
  with ok show ?thesis by (simp add: idle_clean_def modal_close_def setPreviewVersion_def)
next
  case ModalRestore
  with ok show ?thesis
    by (cases "previewVersion (home w)")
       (simp_all add: idle_clean_def modal_restore_def modal_close_def setPreviewVersion_def
          restoreVersion_def)
next
  case Reset
  then show ?thesis by (simp add: idle_clean_def reset_def)
qed

lemma idle_clean_run:
  "idle_clean (home w) \<Longrightarrow> idle_clean (home (run stringify w evs))"
  unfolding run_def
  by (induction evs arbitrary: w) (simp_all add: idle_clean_step)

lemma idle_clean_reach: "idle_clean (home (run stringify init_world evs))"
  by (rule idle_clean_run) (simp add: init_world_def idle_clean_init)

lemma thinking_ctx_step:
  assumes ok: "thinking_ctx w"
  shows "thinking_ctx (step stringify w e)"
proof (cases e)
  case (Submit prompt isRefinement)
  show ?thesis
  proof (cases "trim prompt = [] \<or> state (home w) = Thinking")
    case True
    then show ?thesis using ok Submit by (simp add: submit_start_reject)
  next
    case False
    then have acc: "trim prompt \<noteq> []" "state (home w) \<noteq> Thinking" by simp_all
    from Submit show ?thesis
      by (simp add: submit_start_accept [OF acc] thinking_ctx_def)
  qed
next
  case (Settle k out now)
  show ?thesis
  proof (cases "k < length (pending w)")
    case False
    with ok Settle show ?thesis by simp
  next
    case True
    with Settle show ?thesis
      by (cases "try_fetch out")
         (auto simp: submit_finish_def Let_def thinking_ctx_def)
  qed
next
  case (TypeInput typed)
  with ok show ?thesis by (simp add: thinking_ctx_def)
next
  case (PillClick i)
  with ok show ?thesis by (simp add: thinking_ctx_def pill_click_def setPreviewVersion_def)
next
  case ModalClose
  with ok show ?thesis by (simp add: thinking_ctx_def modal_close_def setPreviewVersion_def)
next
  case ModalRestore
  with ok show ?thesis
    by (cases "previewVersion (home w)")
       (simp_all add: thinking_ctx_def modal_restore_def modal_close_def setPreviewVersion_def
          restoreVersion_def)
next
  case Reset
  then show ?thesis by (simp add: thinking_ctx_def reset_def)
qed

lemma thinking_ctx_run: "thinking_ctx w \<Longrightarrow> thinking_ctx (run stringify w evs)"
  unfolding run_def
  by (induction evs arbitrary: w) (simp_all add: thinking_ctx_step)

lemma thinking_ctx_reach: "thinking_ctx (run stringify init_world evs)"
  by (rule thinking_ctx_run) (simp add: init_world_def thinking_ctx_def Home_init_def)

lemma submit_failure:
  assumes "trim prompt \<noteq> []" and "state s \<noteq> Thinking" and "try_fetch out = Inl err"
  shows "state (submit stringify s prompt isRefinement out now) = Error"
    "errorMsg (submit stringify s prompt isRefinement out now) = catch_message err"
    "activeVersionId (submit stringify s prompt isRefinement out now) = activeVersionId s"
    "history (submit stringify s prompt isRefinement out now) =
       (if isRefinement then history s else [])"
    "versions (submit stringify s prompt isRefinement out now) =
       (if isRefinement then versions s else [])"
    "versionCounter (submit stringify s prompt isRefinement out now) =
       (if isRefinement then versionCounter s else 0)"
    "a2uiMessages (submit stringify s prompt isRefinement out now) =
       (if isRefinement then a2uiMessages s else [])"
  using assms by (simp_all add: submit_def submit_start_accept submit_finish_fail)

lemma trim_ex_prompt3: "trim (js ''Make it dark mode'') = js ''Make it dark mode''"
  by (simp add: trim_def js_def isWhiteSpace_def)

lemma run_Nil: "run stringify w [] = w"
  by (simp add: run_def)

lemma run_append: "run stringify w (xs @ ys) = run stringify (run stringify w xs) ys"
  by (simp add: run_def)

lemma run_Cons: "run stringify w (e # es) = run stringify (step stringify w e) es"
  by (simp add: run_def)

lemma all_wired_append:
  "all_wired stringify w (xs @ ys) \<longleftrightarrow>
     all_wired stringify w xs \<and> all_wired stringify (run stringify w xs) ys"
  by (induction xs arbitrary: w) (simp_all add: run_Nil run_Cons)

lemma ex_wired: "all_wired ex_stringify init_world ex_events"
  by (simp add: ex_events_def init_world_def Home_init_def submit_start_accept js_nonempty
      trim_ex_prompt1 trim_ex_prompt2 submit_finish_ok [OF try_fetch_ex_ok] Let_def)

lemma ex_race_started:
  "run ex_stringify \<lparr> home = ex_s2, pending = [], origin = [ex_s1, ex_s2] \<rparr> ex_race_start =
     \<lparr> home = \<lparr> input = [], state = Thinking, a2uiMessages = [10, 11, 12],
                lastPrompt = js ''Make it dark mode'', errorMsg = [],
                history = v_history ex_v1, versions = [ex_v1], activeVersionId = 1,
                previewVersion = None, versionCounter = 1 \<rparr>,
       pending = [\<lparr> req_prompt = js ''Add a phone field'', req_history = v_history ex_v2 \<rparr>,
                  \<lparr> req_prompt = js ''Make it dark mode'', req_history = v_history ex_v1 \<rparr>],
       origin = [ex_s1] \<rparr>"
  by (simp add: run_def ex_race_start_def ex_s2_eq pill_click_def setPreviewVersion_def
      ex_v_ids submit_start_accept js_nonempty trim_ex_prompt2 trim_ex_prompt3
      modal_restore_def modal_close_def restoreVersion_def slice0_def Let_def,
      simp add: ex_v1_def)

lemma ex_race_wired:
  "all_wired ex_stringify \<lparr> home = ex_s2, pending = [], origin = [ex_s1, ex_s2] \<rparr>
     (ex_race_start @ ex_race_end)"
  by (simp add: ex_race_start_def ex_race_end_def ex_s2_eq pill_click_def setPreviewVersion_def
      ex_v_ids submit_start_accept js_nonempty trim_ex_prompt2 trim_ex_prompt3
      modal_restore_def modal_close_def restoreVersion_def slice0_def Let_def)

lemma assistant_content_explicit:
  "assistant_content stringify msgs d =
     (case d_text d of
        None \<Rightarrow> stringify msgs
      | Some t \<Rightarrow>
          if t = [] then stringify msgs
          else t @ [0x0A, 0x2D, 0x2D, 0x2D, 0x61, 0x32, 0x75, 0x69, 0x5F, 0x4A, 0x53, 0x4F,
                    0x4E, 0x2D, 0x2D, 0x2D, 0x0A] @ stringify msgs)"
  by (simp add: assistant_content_def truthy_def a2ui_separator_def js_def split: option.splits)

lemma try_fetch_ex_ok_text:
  "try_fetch ex_ok_text =
     Inr ([10, 11, 12],
          \<lparr> d_error = None, d_messages = Some [10, 11, 12], d_text = Some (js ''Done'') \<rparr>)"
  by (simp add: try_fetch_def ex_ok_text_def truthy_def)

lemma settle_last_thinking:
  fixes w :: "'m world"
  assumes ctx: "thinking_ctx w" and st: "state (home w) = Thinking"
    and res: "try_fetch out = Inr (msgs, d)"
  shows "history (home (step stringify w (Settle (length (pending w) - 1) out now))) =
           history (home w) @
             [\<lparr> role = User, content = lastPrompt (home w) \<rparr>,
              \<lparr> role = Assistant, content = assistant_content stringify msgs d \<rparr>]"
proof -
  from ctx st have ne: "pending w \<noteq> []"
    and h: "req_history (last (pending w)) = history (home w)"
    and p: "req_prompt (last (pending w)) = lastPrompt (home w)"
    by (simp_all add: thinking_ctx_def)
  from ne have k: "length (pending w) - 1 < length (pending w)" by simp
  from ne have l: "pending w ! (length (pending w) - 1) = last (pending w)"
    by (simp add: last_conv_nth)
  from l h p have h': "req_history (pending w ! (length (pending w) - Suc 0)) = history (home w)"
    and p': "req_prompt (pending w ! (length (pending w) - Suc 0)) = lastPrompt (home w)"
    by simp_all
  show ?thesis
    using k by (simp add: Let_def submit_finish_ok [OF res] h' p')
qed

section \<open>The guard and the context of a submission\<close>

text \<open>
  The guard of \<^verbatim>\<open>submit\<close>: a call whose prompt trims to the empty string, or that is
  made while the state is \<open>Thinking\<close>, changes no field and sends no request. A call made
  in the state a started request has left is such a call, and the response to that
  request then adds exactly one snapshot.
\<close>

lemma submit_guard_noop:
  "(trim prompt = [] \<or> state s = Thinking \<longrightarrow>
      submit_start s prompt isRefinement = (s, None) \<and>
      submit stringify s prompt isRefinement out now = s) \<and>
   (submit_start s p1 r1 = (s1, Some req) \<longrightarrow>
      submit_start s1 p2 r2 = (s1, None) \<and>
      submit stringify s1 p2 r2 out2 now2 = s1 \<and>
      (\<forall>msgs d. try_fetch out1 = Inr (msgs, d) \<longrightarrow>
         (\<exists>v. versions (submit_finish stringify (submit stringify s1 p2 r2 out2 now2)
                           req out1 now1)
                = versions s1 @ [v])))"
proof (intro conjI impI)
  assume g: "trim prompt = [] \<or> state s = Thinking"
  then show a: "submit_start s prompt isRefinement = (s, None)"
    by (rule submit_start_reject)
  then show "submit stringify s prompt isRefinement out now = s"
    by (simp add: submit_def)
next
  assume st: "submit_start s p1 r1 = (s1, Some req)"
  then have th: "state s1 = Thinking" by (rule submit_start_Some_state)
  then show b: "submit_start s1 p2 r2 = (s1, None)"
    by (simp add: submit_start_reject)
  then show c: "submit stringify s1 p2 r2 out2 now2 = s1"
    by (simp add: submit_def)
  show "\<forall>msgs d. try_fetch out1 = Inr (msgs, d) \<longrightarrow>
         (\<exists>v. versions (submit_finish stringify (submit stringify s1 p2 r2 out2 now2)
                           req out1 now1)
                = versions s1 @ [v])"
    by (simp add: c submit_finish_ok)
qed

text \<open>
  Claim C1. The claim asks that a second submit issued while a first generation is
  pending create no second snapshot. The guard reads the state only, and
  \<^verbatim>\<open>restoreVersion\<close> sets the state to \<open>Rendered\<close> whether or not a request is
  outstanding; the modal that calls it stays in the markup on the thinking screen. In
  the run below every event is one the page has a control for. After the first
  refinement is sent the state is \<open>Thinking\<close> with one request outstanding; the restore
  then lets the second refinement through, two requests are outstanding, and when both
  are answered the store has grown from the restored version 1 by two snapshots.
\<close>

theorem two_generations_in_flight:
  "all_wired ex_stringify init_world (ex_events @ ex_race_start @ ex_race_end) \<and>
   state (home (run ex_stringify init_world
                  (ex_events @ [PillClick 0, Submit (js ''Add a phone field'') True]))) = Thinking \<and>
   length (pending (run ex_stringify init_world
                  (ex_events @ [PillClick 0, Submit (js ''Add a phone field'') True]))) = 1 \<and>
   length (pending (run ex_stringify init_world (ex_events @ ex_race_start))) = 2 \<and>
   map v_id (versions (home (run ex_stringify init_world (ex_events @ ex_race_start)))) = [1] \<and>
   map v_id (versions (home (run ex_stringify init_world
                               (ex_events @ ex_race_start @ ex_race_end)))) = [1, 2, 3] \<and>
   map v_prompt (versions (home (run ex_stringify init_world
                               (ex_events @ ex_race_start @ ex_race_end)))) =
     [js ''Build a contact form'', js ''Add a phone field'', js ''Make it dark mode'']"
proof -
  have w: "all_wired ex_stringify init_world (ex_events @ ex_race_start @ ex_race_end)"
    using ex_wired ex_race_wired by (simp add: all_wired_append [of _ _ ex_events] ex_run)
  have a: "state (home (run ex_stringify init_world
                  (ex_events @ [PillClick 0, Submit (js ''Add a phone field'') True]))) = Thinking \<and>
           length (pending (run ex_stringify init_world
                  (ex_events @ [PillClick 0, Submit (js ''Add a phone field'') True]))) = 1"
    by (simp add: run_append ex_run, simp add: run_def ex_s2_eq pill_click_def
        setPreviewVersion_def ex_v_ids submit_start_accept js_nonempty trim_ex_prompt2)
  have b: "length (pending (run ex_stringify init_world (ex_events @ ex_race_start))) = 2 \<and>
           map v_id (versions (home (run ex_stringify init_world (ex_events @ ex_race_start)))) = [1]"
    by (simp add: run_append ex_run ex_race_started ex_v_ids)
  have c: "versions (home (run ex_stringify init_world
                               (ex_events @ ex_race_start @ ex_race_end))) =
     [ex_v1,
      \<lparr> v_id = 2, v_prompt = js ''Add a phone field'', v_messages = [10, 11, 12],
         v_history = v_history ex_v2 @
           [\<lparr> role = User, content = js ''Add a phone field'' \<rparr>,
            \<lparr> role = Assistant, content = [10, 11, 12] \<rparr>],
         v_timestamp = 300 \<rparr>,
      \<lparr> v_id = 3, v_prompt = js ''Make it dark mode'', v_messages = [10, 11, 12],
         v_history = v_history ex_v1 @
           [\<lparr> role = User, content = js ''Make it dark mode'' \<rparr>,
            \<lparr> role = Assistant, content = [10, 11, 12] \<rparr>],
         v_timestamp = 400 \<rparr>]"
    by (simp add: run_append ex_run ex_race_started,
        simp add: run_def ex_race_end_def submit_finish_ok [OF try_fetch_ex_ok] Let_def
          try_fetch_ex_ok assistant_content_def truthy_def ex_stringify_msgs)
  from w a b c show ?thesis by (simp add: ex_v_ids, simp add: ex_v1_def)
qed

text \<open>
  Claim C8. A call of \<^verbatim>\<open>submit\<close> with a prompt that does not trim to empty, from a state
  other than \<open>Thinking\<close>: when it is not a refinement, the turn log and the version store
  are empty and the counter is zero in the state committed before the response, and the
  request carries an empty history; when it is a refinement, the request carries the
  session's current turn log.
\<close>

theorem submit_context:
  "trim prompt \<noteq> [] \<Longrightarrow> state s \<noteq> Thinking \<Longrightarrow>
   (\<exists>s'. submit_start s prompt False =
            (s', Some \<lparr> req_prompt = trim prompt, req_history = [] \<rparr>) \<and>
          history s' = [] \<and> versions s' = [] \<and> versionCounter s' = 0 \<and>
          state s' = Thinking) \<and>
   (\<exists>s'. submit_start s prompt True =
            (s', Some \<lparr> req_prompt = trim prompt, req_history = history s \<rparr>) \<and>
          history s' = history s \<and> versions s' = versions s \<and>
          versionCounter s' = versionCounter s \<and> state s' = Thinking)"
  by (simp add: submit_start_accept)

theorem submit_context_witness:
  "trim (js ''Add a phone field'') \<noteq> [] \<and> state ex_s1 \<noteq> Thinking \<and>
   history ex_s1 \<noteq> [] \<and> versions ex_s1 \<noteq> [] \<and>
   snd (submit_start ex_s1 (js ''Add a phone field'') False) =
     Some \<lparr> req_prompt = js ''Add a phone field'', req_history = [] \<rparr> \<and>
   history (fst (submit_start ex_s1 (js ''Add a phone field'') False)) = [] \<and>
   versions (fst (submit_start ex_s1 (js ''Add a phone field'') False)) = [] \<and>
   versionCounter (fst (submit_start ex_s1 (js ''Add a phone field'') False)) = 0 \<and>
   snd (submit_start ex_s1 (js ''Add a phone field'') True) =
     Some \<lparr> req_prompt = js ''Add a phone field'', req_history = history ex_s1 \<rparr>"
proof -
  have h1: "trim (js ''Add a phone field'') \<noteq> []"
    by (simp add: trim_ex_prompt2 js_nonempty)
  have h2: "state ex_s1 \<noteq> Thinking" by (simp add: ex_s1_eq)
  have h3: "history ex_s1 \<noteq> [] \<and> versions ex_s1 \<noteq> []" by (simp add: ex_s1_eq)
  from submit_context [OF h1 h2] h1 h2 h3 show ?thesis
    by (auto simp: trim_ex_prompt2)
qed

section \<open>Restoring a version\<close>

text \<open>
  Claim C4. When the version handed to \<^verbatim>\<open>restoreVersion\<close> is in the store, and the ids
  of the store are distinct, the store is cut to the prefix that ends with that version
  (every later snapshot is dropped), the turn log, the shown messages, the active id and
  the counter are taken from that version, and the state is \<open>Rendered\<close>. The ids of the
  store are distinct in every state a run of the page reaches.
\<close>

theorem restoreVersion_effect:
  fixes s :: "'m Home" and evs :: "'m event list"
  assumes mem: "version \<in> set (versions s)"
    and ids: "distinct (map v_id (versions s))"
  shows "(\<exists>pre post. versions s = pre @ version # post \<and>
            versions (restoreVersion s version) = pre @ [version] \<and>
            set post \<inter> set (versions (restoreVersion s version)) = {}) \<and>
         history (restoreVersion s version) = v_history version \<and>
         a2uiMessages (restoreVersion s version) = v_messages version \<and>
         activeVersionId (restoreVersion s version) = v_id version \<and>
         versionCounter (restoreVersion s version) = v_id version \<and>
         state (restoreVersion s version) = Rendered \<and>
         distinct (map v_id (versions (home (run stringify init_world evs))))"
proof -
  have reach: "distinct (map v_id (versions (home (run stringify init_world evs))))"
    by (rule world_ok_distinct [OF world_ok_run [OF world_ok_init]])
  from mem obtain pre post where sp: "versions s = pre @ version # post"
    by (auto simp: in_set_conv_decomp)
  with ids have d: "distinct (map v_id pre @ v_id version # map v_id post)" by simp
  then have pre: "\<And>x. x \<in> set pre \<Longrightarrow> v_id x \<noteq> v_id version"
    by (auto simp: image_iff)
  have r: "versions (restoreVersion s version) = pre @ [version]"
    using sp pre by (rule restoreVersion_versions_found)
  from ids sp have dv: "distinct (pre @ version # post)"
    using distinct_map by metis
  then have "set post \<inter> set (pre @ [version]) = {}" by auto
  with sp r reach show ?thesis by (simp add: restoreVersion_fields)
qed

theorem restoreVersion_effect_witness:
  "ex_v1 \<in> set (versions ex_s2) \<and> distinct (map v_id (versions ex_s2)) \<and>
   versions ex_s2 = [ex_v1, ex_v2] \<and>
   versions (restoreVersion ex_s2 ex_v1) = [ex_v1] \<and>
   history (restoreVersion ex_s2 ex_v1) = v_history ex_v1 \<and>
   a2uiMessages (restoreVersion ex_s2 ex_v1) = v_messages ex_v1 \<and>
   activeVersionId (restoreVersion ex_s2 ex_v1) = 1 \<and>
   versionCounter (restoreVersion ex_s2 ex_v1) = 1 \<and>
   state (restoreVersion ex_s2 ex_v1) = Rendered"
proof -
  have mem: "ex_v1 \<in> set (versions ex_s2)" by (simp add: ex_s2_fields)
  have ids: "distinct (map v_id (versions ex_s2))" by (simp add: ex_s2_fields ex_v_ids)
  from restoreVersion_effect [OF mem ids] obtain pre post where
    sp: "versions ex_s2 = pre @ ex_v1 # post"
    and r: "versions (restoreVersion ex_s2 ex_v1) = pre @ [ex_v1]"
    and rest: "history (restoreVersion ex_s2 ex_v1) = v_history ex_v1"
      "a2uiMessages (restoreVersion ex_s2 ex_v1) = v_messages ex_v1"
      "activeVersionId (restoreVersion ex_s2 ex_v1) = v_id ex_v1"
      "versionCounter (restoreVersion ex_s2 ex_v1) = v_id ex_v1"
      "state (restoreVersion ex_s2 ex_v1) = Rendered"
    by blast
  have ne: "ex_v2 \<noteq> ex_v1" by (simp add: ex_v1_def ex_v2_def)
  from sp ne have "pre = []"
    by (cases pre) (auto simp: ex_s2_fields Cons_eq_append_conv)
  with r mem ids rest show ?thesis by (simp add: ex_s2_fields ex_v_ids)
qed

text \<open>
  Claim C10. When no snapshot of the store has the id of the version handed to
  \<^verbatim>\<open>restoreVersion\<close>, \<^verbatim>\<open>findIndex\<close> gives \<open>-1\<close> and the store becomes empty, while the
  state still becomes \<open>Rendered\<close> with that version's messages, turn log and id; the
  function has no failing branch.
\<close>

theorem restoreVersion_absent:
  assumes "v_id version \<notin> v_id ` set (versions s)"
  shows "findIndex (\<lambda>v. v_id v = v_id version) (versions s) = - 1 \<and>
         versions (restoreVersion s version) = [] \<and>
         state (restoreVersion s version) = Rendered \<and>
         a2uiMessages (restoreVersion s version) = v_messages version \<and>
         history (restoreVersion s version) = v_history version \<and>
         activeVersionId (restoreVersion s version) = v_id version \<and>
         versionCounter (restoreVersion s version) = v_id version"
proof -
  from assms have a: "\<And>x. x \<in> set (versions s) \<Longrightarrow> v_id x \<noteq> v_id version"
    by (auto simp: image_iff)
  then have "findIndex (\<lambda>v. v_id v = v_id version) (versions s) = - 1"
    by (intro findIndex_absent) auto
  moreover from a have "versions (restoreVersion s version) = []"
    by (rule restoreVersion_versions_absent)
  ultimately show ?thesis by (simp add: restoreVersion_fields)
qed

theorem restoreVersion_absent_witness:
  "v_id ex_v1 \<notin> v_id ` set (versions (reset (pill_click ex_s2 ex_v1))) \<and>
   previewVersion (reset (pill_click ex_s2 ex_v1)) = Some ex_v1 \<and>
   versions (restoreVersion (reset (pill_click ex_s2 ex_v1)) ex_v1) = [] \<and>
   state (restoreVersion (reset (pill_click ex_s2 ex_v1)) ex_v1) = Rendered \<and>
   history (restoreVersion (reset (pill_click ex_s2 ex_v1)) ex_v1) = v_history ex_v1 \<and>
   activeVersionId (restoreVersion (reset (pill_click ex_s2 ex_v1)) ex_v1) = 1 \<and>
   versionCounter (restoreVersion (reset (pill_click ex_s2 ex_v1)) ex_v1) = 1"
proof -
  have a: "v_id ex_v1 \<notin> v_id ` set (versions (reset (pill_click ex_s2 ex_v1)))"
    by (simp add: reset_def)
  have p: "previewVersion (reset (pill_click ex_s2 ex_v1)) = Some ex_v1"
    by (simp add: reset_def pill_click_def setPreviewVersion_def ex_s2_fields ex_v_ids)
  from restoreVersion_absent [OF a] a p show ?thesis by (simp add: ex_v_ids)
qed

text \<open>
  Claim C5. In a store whose ids are \<open>1..n\<close>, after \<^verbatim>\<open>restoreVersion\<close> of a stored
  version with id \<open>k\<close>, every successful submission the page can then issue (the state
  is \<open>Rendered\<close>, whose only submitting control is the refine bar) creates a snapshot
  with id \<open>k + 1\<close>, and the store is then the first \<open>k\<close> old snapshots followed by the
  new one, with ids \<open>1..k+1\<close>; the old snapshots after \<open>k\<close> are gone.
\<close>

theorem restore_then_submit:
  assumes ids: "map v_id (versions s) = map int [1..<Suc n]"
    and mem: "version \<in> set (versions s)"
    and site: "wired (restoreVersion s version) (Submit prompt isRefinement)"
    and p: "trim prompt \<noteq> []"
    and res: "try_fetch out = Inr (msgs, d)"
  shows "\<exists>new. versions (submit stringify (restoreVersion s version) prompt isRefinement out now)
                 = take (nat (v_id version)) (versions s) @ [new] \<and>
               v_id new = v_id version + 1 \<and>
               map v_id (versions (submit stringify (restoreVersion s version) prompt
                                     isRefinement out now))
                 = map int [1..<Suc (nat (v_id version) + 1)] \<and>
               1 \<le> v_id version \<and> v_id version \<le> int n"
proof -
  from site have r: "isRefinement"
    by (cases isRefinement) (simp_all add: restoreVersion_fields)
  note rc = restoreVersion_contiguous [OF ids mem]
  have st: "state (restoreVersion s version) \<noteq> Thinking"
    by (simp add: restoreVersion_fields)
  have "map int [1..<Suc (nat (v_id version))] @ [v_id version + 1]
          = map int [1..<Suc (nat (v_id version) + 1)]"
    using rc(1) by (simp del: upt_Suc add: upt_Suc_append)
  with rc r show ?thesis
    by (simp add: submit_def submit_start_accept [OF p st] submit_finish_ok [OF res]
        restoreVersion_fields)
qed

theorem restore_then_submit_witness:
  "map v_id (versions ex_s2) = map int [1..<Suc 2] \<and> ex_v1 \<in> set (versions ex_s2) \<and>
   wired (restoreVersion ex_s2 ex_v1) (Submit (js ''Make it dark mode'') True) \<and>
   trim (js ''Make it dark mode'') \<noteq> [] \<and>
   map v_id (versions (submit ex_stringify (restoreVersion ex_s2 ex_v1)
                         (js ''Make it dark mode'') True ex_ok 300)) = [1, 2] \<and>
   butlast (versions (submit ex_stringify (restoreVersion ex_s2 ex_v1)
                         (js ''Make it dark mode'') True ex_ok 300)) = [ex_v1] \<and>
   last (versions (submit ex_stringify (restoreVersion ex_s2 ex_v1)
                         (js ''Make it dark mode'') True ex_ok 300)) \<noteq> ex_v2"
proof -
  have ids: "map v_id (versions ex_s2) = map int [1..<Suc 2]"
    by (simp add: ex_s2_fields ex_v_ids upt_rec)
  have mem: "ex_v1 \<in> set (versions ex_s2)" by (simp add: ex_s2_fields)
  have p: "trim (js ''Make it dark mode'') \<noteq> []" by (simp add: trim_ex_prompt3 js_nonempty)
  have site: "wired (restoreVersion ex_s2 ex_v1) (Submit (js ''Make it dark mode'') True)"
    by (simp add: restoreVersion_fields p)
  have st: "state (restoreVersion ex_s2 ex_v1) \<noteq> Thinking"
    by (simp add: restoreVersion_fields)
  have other: "last (versions (submit ex_stringify (restoreVersion ex_s2 ex_v1)
                         (js ''Make it dark mode'') True ex_ok 300)) \<noteq> ex_v2"
    by (simp add: submit_def submit_start_accept [OF p st] submit_finish_ok [OF try_fetch_ex_ok]
        ex_v2_def)
  from restore_then_submit [OF ids mem site p try_fetch_ex_ok, of ex_stringify 300]
  obtain new where
    "versions (submit ex_stringify (restoreVersion ex_s2 ex_v1) (js ''Make it dark mode'')
        True ex_ok 300) = take (nat (v_id ex_v1)) (versions ex_s2) @ [new]"
    and "v_id new = v_id ex_v1 + 1"
    by blast
  with ids mem p site other show ?thesis by (simp add: ex_s2_fields ex_v_ids)
qed

section \<open>The preview\<close>

text \<open>
  Claim C9. Opening a preview (the timeline's \<^verbatim>\<open>onSelect\<close>, which is
  \<^verbatim>\<open>setPreviewVersion\<close>) changes no field of the page state other than the previewed
  version itself: state, turn log, store, shown messages, active id, counter, last
  prompt, error message and input stay as they are. Opening the same preview twice gives
  the same view and the same state as opening it once, and closing it gives back the
  state with no preview.
\<close>

theorem preview_frame:
  "state (setPreviewVersion s pv) = state s \<and>
   history (setPreviewVersion s pv) = history s \<and>
   versions (setPreviewVersion s pv) = versions s \<and>
   a2uiMessages (setPreviewVersion s pv) = a2uiMessages s \<and>
   activeVersionId (setPreviewVersion s pv) = activeVersionId s \<and>
   versionCounter (setPreviewVersion s pv) = versionCounter s \<and>
   lastPrompt (setPreviewVersion s pv) = lastPrompt s \<and>
   errorMsg (setPreviewVersion s pv) = errorMsg s \<and>
   input (setPreviewVersion s pv) = input s \<and>
   previewVersion (setPreviewVersion s pv) = pv \<and>
   setPreviewVersion (setPreviewVersion s pv) pv = setPreviewVersion s pv \<and>
   pill_click s v = s\<lparr> previewVersion := previewVersion (pill_click s v) \<rparr> \<and>
   pill_click (pill_click s v) v = pill_click s v \<and>
   modal_close (setPreviewVersion s pv) = s\<lparr> previewVersion := None \<rparr>"
  by (simp add: setPreviewVersion_def pill_click_def modal_close_def)

theorem preview_frame_witness:
  "previewVersion (setPreviewVersion ex_s2 (Some ex_v1)) = Some ex_v1 \<and>
   versions (setPreviewVersion ex_s2 (Some ex_v1)) = [ex_v1, ex_v2] \<and>
   activeVersionId (setPreviewVersion ex_s2 (Some ex_v1)) = 2 \<and>
   setPreviewVersion (setPreviewVersion ex_s2 (Some ex_v1)) (Some ex_v1) =
     setPreviewVersion ex_s2 (Some ex_v1) \<and>
   pill_click ex_s2 ex_v1 = setPreviewVersion ex_s2 (Some ex_v1)"
  using preview_frame [of ex_s2 "Some ex_v1" ex_v1]
  by (simp add: ex_s2_fields pill_click_def ex_v_ids)

section \<open>A failed generation\<close>

text \<open>
  Claim C2. Take any state a run of the page reaches and any submission the page issues
  there, a refinement from the rendered screen or a new prompt from the idle screen. When
  its generation fails (the fetch rejects, the status is not a success, the body carries
  an error or no messages), the turn log, the store, the active id, the counter and the
  shown messages after the failure are what they were before the submission; the state
  is \<open>Error\<close> with the error's message. The same holds for each half on its own: sending
  the request changes none of the three, and neither does the failing response,
  whatever happened in between.
\<close>

theorem failed_generation_frame:
  fixes w w' :: "'m world"
  assumes w: "w = run stringify init_world evs"
    and site: "wired (home w) (Submit prompt isRefinement)"
    and p: "trim prompt \<noteq> []"
    and fail: "try_fetch out = Inl err"
  shows "history (submit stringify (home w) prompt isRefinement out now) = history (home w) \<and>
         versions (submit stringify (home w) prompt isRefinement out now) = versions (home w) \<and>
         activeVersionId (submit stringify (home w) prompt isRefinement out now) =
           activeVersionId (home w) \<and>
         versionCounter (submit stringify (home w) prompt isRefinement out now) =
           versionCounter (home w) \<and>
         a2uiMessages (submit stringify (home w) prompt isRefinement out now) =
           a2uiMessages (home w) \<and>
         state (submit stringify (home w) prompt isRefinement out now) = Error \<and>
         errorMsg (submit stringify (home w) prompt isRefinement out now) = catch_message err \<and>
         history (home (step stringify w (Submit prompt isRefinement))) = history (home w) \<and>
         versions (home (step stringify w (Submit prompt isRefinement))) = versions (home w) \<and>
         activeVersionId (home (step stringify w (Submit prompt isRefinement))) =
           activeVersionId (home w) \<and>
         history (home (step stringify w' (Settle k out now))) = history (home w') \<and>
         versions (home (step stringify w' (Settle k out now))) = versions (home w') \<and>
         activeVersionId (home (step stringify w' (Settle k out now))) =
           activeVersionId (home w')"
proof -
  have clean: "idle_clean (home w)" unfolding w by (rule idle_clean_reach)
  from site have st: "state (home w) \<noteq> Thinking"
    by (cases isRefinement) simp_all
  from site clean have empty: "\<not> isRefinement \<Longrightarrow>
      history (home w) = [] \<and> versions (home w) = [] \<and> versionCounter (home w) = 0 \<and>
      a2uiMessages (home w) = []"
    by (simp add: idle_clean_def)
  note f = submit_failure [OF p st fail, of stringify isRefinement now]
  have atomic: "history (submit stringify (home w) prompt isRefinement out now) = history (home w)"
    "versions (submit stringify (home w) prompt isRefinement out now) = versions (home w)"
    "activeVersionId (submit stringify (home w) prompt isRefinement out now) =
           activeVersionId (home w)"
    "versionCounter (submit stringify (home w) prompt isRefinement out now) =
           versionCounter (home w)"
    "a2uiMessages (submit stringify (home w) prompt isRefinement out now) =
           a2uiMessages (home w)"
    using f empty by (cases isRefinement; simp)+
  have start: "history (home (step stringify w (Submit prompt isRefinement))) = history (home w)"
    "versions (home (step stringify w (Submit prompt isRefinement))) = versions (home w)"
    "activeVersionId (home (step stringify w (Submit prompt isRefinement))) =
           activeVersionId (home w)"
    using empty by (cases isRefinement; simp add: submit_start_accept [OF p st])+
  have settle: "history (home (step stringify w' (Settle k out now))) = history (home w')"
    "versions (home (step stringify w' (Settle k out now))) = versions (home w')"
    "activeVersionId (home (step stringify w' (Settle k out now))) = activeVersionId (home w')"
    by (simp_all add: submit_finish_fail [OF fail] Let_def)
  from atomic f(1,2) start settle show ?thesis by simp
qed

theorem failed_generation_frame_witness:
  "wired (home (run ex_stringify init_world ex_events)) (Submit (js ''Add a phone field'') True) \<and>
   trim (js ''Add a phone field'') \<noteq> [] \<and>
   try_fetch ex_fail = Inl (ErrorObj (js ''Failed to fetch'')) \<and>
   history (submit ex_stringify ex_s2 (js ''Add a phone field'') True ex_fail 300) =
     v_history ex_v2 \<and>
   versions (submit ex_stringify ex_s2 (js ''Add a phone field'') True ex_fail 300) =
     [ex_v1, ex_v2] \<and>
   activeVersionId (submit ex_stringify ex_s2 (js ''Add a phone field'') True ex_fail 300) = 2 \<and>
   state (submit ex_stringify ex_s2 (js ''Add a phone field'') True ex_fail 300) = Error \<and>
   errorMsg (submit ex_stringify ex_s2 (js ''Add a phone field'') True ex_fail 300) =
     js ''Failed to fetch'' \<and>
   wired (home (run ex_stringify init_world [])) (Submit (js ''Build a contact form'') False) \<and>
   trim (js ''Build a contact form'') \<noteq> [] \<and>
   history (submit ex_stringify Home_init (js ''Build a contact form'') False ex_fail 50) = [] \<and>
   versions (submit ex_stringify Home_init (js ''Build a contact form'') False ex_fail 50) = [] \<and>
   activeVersionId (submit ex_stringify Home_init (js ''Build a contact form'') False ex_fail 50)
     = 0 \<and>
   state (submit ex_stringify Home_init (js ''Build a contact form'') False ex_fail 50) = Error"
proof -
  have p2: "trim (js ''Add a phone field'') \<noteq> []" by (simp add: trim_ex_prompt2 js_nonempty)
  have p1: "trim (js ''Build a contact form'') \<noteq> []" by (simp add: trim_ex_prompt1 js_nonempty)
  have s2: "wired (home (run ex_stringify init_world ex_events))
              (Submit (js ''Add a phone field'') True)"
    by (simp add: ex_run ex_s2_fields p2)
  have s0: "wired (home (run ex_stringify init_world []))
              (Submit (js ''Build a contact form'') False)"
    by (simp add: run_Nil init_world_def Home_init_def)
  note a = failed_generation_frame [OF refl s2 p2 try_fetch_ex_fail, where now = 300]
  note b = failed_generation_frame [OF refl s0 p1 try_fetch_ex_fail, where now = 50]
  from a have A:
    "history (submit ex_stringify ex_s2 (js ''Add a phone field'') True ex_fail 300) =
       history ex_s2 \<and>
     versions (submit ex_stringify ex_s2 (js ''Add a phone field'') True ex_fail 300) =
       versions ex_s2 \<and>
     activeVersionId (submit ex_stringify ex_s2 (js ''Add a phone field'') True ex_fail 300) =
       activeVersionId ex_s2 \<and>
     state (submit ex_stringify ex_s2 (js ''Add a phone field'') True ex_fail 300) = Error \<and>
     errorMsg (submit ex_stringify ex_s2 (js ''Add a phone field'') True ex_fail 300) =
       catch_message (ErrorObj (js ''Failed to fetch''))"
    by (simp add: ex_run)
  have i: "home (run ex_stringify init_world []) = Home_init"
    by (simp add: run_Nil init_world_def)
  from b have B:
    "history (submit ex_stringify Home_init (js ''Build a contact form'') False ex_fail 50) =
       history (Home_init :: nat Home) \<and>
     versions (submit ex_stringify Home_init (js ''Build a contact form'') False ex_fail 50) =
       versions (Home_init :: nat Home) \<and>
     activeVersionId (submit ex_stringify Home_init (js ''Build a contact form'') False
        ex_fail 50) = activeVersionId (Home_init :: nat Home) \<and>
     state (submit ex_stringify Home_init (js ''Build a contact form'') False ex_fail 50) = Error"
    by (simp add: i)
  have h: "history (Home_init :: nat Home) = []" "versions (Home_init :: nat Home) = []"
    "activeVersionId (Home_init :: nat Home) = 0"
    by (simp_all add: Home_init_def)
  from A B s2 s0 p1 p2 show ?thesis
    by (simp add: ex_s2_fields try_fetch_ex_fail catch_message_def h)
qed

section \<open>Branching from a restored version\<close>

text \<open>
  Claim C3. Take any run of the page from its initial state and any snapshot of the
  store it ends with, and let \<open>origin w ! i\<close> be the page state at the moment that
  snapshot was created. A refinement submitted right after restoring the snapshot sends
  the same request (the same prompt and the snapshot's turn log) as the same refinement
  submitted from that earlier state, and with the same response and time both end in
  the same page state: the same new snapshot with the same id, the same store, turn log,
  counter and state. Only the preview that happens to be open may differ.
\<close>

theorem branching_deterministic:
  fixes w :: "'m world"
  assumes w: "w = run stringify init_world evs"
    and i: "i < length (versions (home w))"
    and p: "trim prompt \<noteq> []"
  shows "i < length (origin w) \<and>
         last (versions (origin w ! i)) = versions (home w) ! i \<and>
         snd (submit_start (restoreVersion (home w) (versions (home w) ! i)) prompt True) =
           snd (submit_start (origin w ! i) prompt True) \<and>
         snd (submit_start (origin w ! i) prompt True) =
           Some \<lparr> req_prompt = trim prompt,
                  req_history = v_history (versions (home w) ! i) \<rparr> \<and>
         submit stringify (restoreVersion (home w) (versions (home w) ! i)) prompt True out now =
           (submit stringify (origin w ! i) prompt True out now)
             \<lparr> previewVersion := previewVersion (home w) \<rparr>"
proof -
  have ok: "world_ok w" unfolding w by (rule world_ok_run [OF world_ok_init])
  then have len: "length (origin w) = length (versions (home w))"
    and b: "born (origin w ! i) (take (Suc i) (versions (home w)))"
    using i by (simp_all add: world_ok_iff)
  note d = world_ok_distinct [OF ok]
  note r = restore_like_born [OF b d i p]
  have "submit stringify (restoreVersion (home w) (versions (home w) ! i)) prompt True out now =
           (submit stringify (origin w ! i) prompt True out now)
             \<lparr> previewVersion := previewVersion (home w) \<rparr>"
    using submit_finish_preview
      [where stringify = stringify and x = "previewVersion (home w)" and
          s = "(origin w ! i)\<lparr> lastPrompt := trim prompt, input := [],
            state := Thinking, errorMsg := [] \<rparr>"]
    by (simp add: submit_def r(1) r(2))
  with len i r show ?thesis by simp
qed

theorem branching_deterministic_witness:
  "0 < length (versions (home (run ex_stringify init_world ex_events))) \<and>
   trim (js ''Add a phone field'') \<noteq> [] \<and>
   versions (home (run ex_stringify init_world ex_events)) ! 0 = ex_v1 \<and>
   origin (run ex_stringify init_world ex_events) ! 0 = ex_s1 \<and>
   submit ex_stringify (restoreVersion ex_s2 ex_v1) (js ''Add a phone field'') True ex_ok 300 =
     submit ex_stringify ex_s1 (js ''Add a phone field'') True ex_ok 300"
proof -
  have i: "0 < length (versions (home (run ex_stringify init_world ex_events)))"
    by (simp add: ex_run ex_s2_fields)
  have p: "trim (js ''Add a phone field'') \<noteq> []" by (simp add: trim_ex_prompt2 js_nonempty)
  have pv: "previewVersion (submit ex_stringify ex_s1 (js ''Add a phone field'') True ex_ok 300)
              = None"
    by (simp add: submit_previewVersion ex_s1_eq)
  have "(submit ex_stringify ex_s1 (js ''Add a phone field'') True ex_ok 300)
          \<lparr> previewVersion := previewVersion
              (submit ex_stringify ex_s1 (js ''Add a phone field'') True ex_ok 300) \<rparr>
        = submit ex_stringify ex_s1 (js ''Add a phone field'') True ex_ok 300"
    by simp
  then have same: "(submit ex_stringify ex_s1 (js ''Add a phone field'') True ex_ok 300)
          \<lparr> previewVersion := None \<rparr>
        = submit ex_stringify ex_s1 (js ''Add a phone field'') True ex_ok 300"
    by (simp only: pv)
  from branching_deterministic [OF refl i p, of ex_ok 300] i p same show ?thesis
    by (simp add: ex_run ex_s2_fields ex_s2_eq)
qed

section \<open>Snapshot ids and turn logs\<close>

text \<open>
  Claim C6. Starting from a store whose ids count up from one with the counter at its
  length (the initial state and every state after \<^verbatim>\<open>reset\<close> are such), after any
  sequence of calls of \<^verbatim>\<open>submit\<close> the ids of the store are again \<open>1, 2, ..., n\<close>,
  strictly increasing, with the counter at \<open>n\<close>; when the calls are successful the store
  is not empty. A successful generation takes the counter plus one as its id; a
  submission that is not a refinement restarts the counter, so its snapshot has id 1, and
  so has the first snapshot after \<^verbatim>\<open>reset\<close>.
\<close>

theorem snapshot_ids_contiguous:
  fixes s0 s :: "'m Home"
  shows
  "(store_ok s0 \<longrightarrow>
      map v_id (versions (submit_all stringify s0 xs)) =
        map int [1..<Suc (length (versions (submit_all stringify s0 xs)))] \<and>
      sorted_wrt (<) (map v_id (versions (submit_all stringify s0 xs))) \<and>
      versionCounter (submit_all stringify s0 xs) =
        int (length (versions (submit_all stringify s0 xs)))) \<and>
   (list_all successful xs \<and> xs \<noteq> [] \<and> state s0 \<noteq> Thinking \<longrightarrow>
      state (submit_all stringify s0 xs) = Rendered \<and>
      versions (submit_all stringify s0 xs) \<noteq> []) \<and>
   store_ok (Home_init :: 'm Home) \<and> store_ok (reset s) \<and>
   versionCounter (reset s) = 0 \<and> versions (reset s) = [] \<and>
   (trim prompt \<noteq> [] \<and> state s \<noteq> Thinking \<and> try_fetch out = Inr (msgs, d) \<longrightarrow>
      versionCounter (submit stringify s prompt isRefinement out now) =
        (if isRefinement then versionCounter s else 0) + 1 \<and>
      v_id (last (versions (submit stringify s prompt isRefinement out now))) =
        versionCounter (submit stringify s prompt isRefinement out now) \<and>
      length (versions (submit stringify s prompt isRefinement out now)) =
        (if isRefinement then length (versions s) else 0) + 1 \<and>
      map v_id (versions (submit stringify s prompt False out now)) = [1]) \<and>
   (trim prompt \<noteq> [] \<and> try_fetch out = Inr (msgs, d) \<longrightarrow>
      map v_id (versions (submit stringify (reset s) prompt isRefinement out now)) = [1])"
proof -
  have a: "store_ok s0 \<Longrightarrow> store_ok (submit_all stringify s0 xs)"
    by (rule store_ok_submit_all)
  have b: "store_ok t \<Longrightarrow>
      map v_id (versions t) = map int [1..<Suc (length (versions t))] \<and>
      sorted_wrt (<) (map v_id (versions t)) \<and> versionCounter t = int (length (versions t))"
    for t :: "'m Home"
    using store_ok_sorted [of t] by (simp add: store_ok_def)
  have c: "list_all successful xs \<and> xs \<noteq> [] \<and> state s0 \<noteq> Thinking \<longrightarrow>
      state (submit_all stringify s0 xs) = Rendered \<and>
      versions (submit_all stringify s0 xs) \<noteq> []"
    using submit_all_successful_state [of xs s0 stringify] by blast
  have r: "state (reset s) \<noteq> Thinking" "versionCounter (reset s) = 0" "versions (reset s) = []"
    by (simp_all add: reset_def)
  have d: "trim prompt \<noteq> [] \<and> state s \<noteq> Thinking \<and> try_fetch out = Inr (msgs, d) \<longrightarrow>
      versionCounter (submit stringify s prompt isRefinement out now) =
        (if isRefinement then versionCounter s else 0) + 1 \<and>
      v_id (last (versions (submit stringify s prompt isRefinement out now))) =
        versionCounter (submit stringify s prompt isRefinement out now) \<and>
      length (versions (submit stringify s prompt isRefinement out now)) =
        (if isRefinement then length (versions s) else 0) + 1 \<and>
      map v_id (versions (submit stringify s prompt False out now)) = [1]"
    by (simp add: submit_success)
  have e: "trim prompt \<noteq> [] \<and> try_fetch out = Inr (msgs, d) \<longrightarrow>
      map v_id (versions (submit stringify (reset s) prompt isRefinement out now)) = [1]"
    using r by (simp add: submit_success)
  from a b [of "submit_all stringify s0 xs"] c d e r
    store_ok_init [where ?'a = 'm] store_ok_reset [of s]
  show ?thesis by blast
qed

theorem snapshot_ids_contiguous_witness:
  "store_ok (Home_init :: nat Home) \<and> list_all successful ex_submissions \<and>
   ex_submissions \<noteq> [] \<and> state (Home_init :: nat Home) \<noteq> Thinking \<and>
   map v_id (versions (submit_all ex_stringify Home_init ex_submissions)) = [1, 2] \<and>
   versionCounter (submit_all ex_stringify Home_init ex_submissions) = 2 \<and>
   state (submit_all ex_stringify Home_init ex_submissions) = Rendered \<and>
   trim (js ''Add a phone field'') \<noteq> [] \<and>
   map v_id (versions (submit ex_stringify ex_s2 (js ''Add a phone field'') False ex_ok 300)) = [1] \<and>
   map v_id (versions (submit ex_stringify (reset ex_s2) (js ''Add a phone field'') True ex_ok 300)) = [1] \<and>
   versionCounter (submit ex_stringify ex_s2 (js ''Add a phone field'') True ex_ok 300) = 3"
proof -
  have p: "trim (js ''Add a phone field'') \<noteq> []" by (simp add: trim_ex_prompt2 js_nonempty)
  have i: "state (Home_init :: nat Home) \<noteq> Thinking" by (simp add: Home_init_def)
  have r: "state ex_s2 \<noteq> Thinking" by (simp add: ex_s2_fields)
  have n: "ex_submissions \<noteq> []" by (simp add: ex_submissions_def)
  note t1 = snapshot_ids_contiguous [where ?s0.0 = "Home_init :: nat Home" and xs = ex_submissions
      and stringify = ex_stringify and s = ex_s2 and prompt = "js ''Add a phone field''"
      and out = ex_ok and msgs = "[10, 11, 12]"
      and d = "\<lparr> d_error = None, d_messages = Some [10, 11, 12], d_text = None \<rparr>"
      and isRefinement = True and now = 300]
  from t1 p i r n ex_successful try_fetch_ex_ok show ?thesis
    by (simp add: ex_submit_all ex_s2_fields ex_v_ids)
qed

text \<open>
  Claim C7. A successful round sets the turn log to the context its request carried
  followed by exactly two turns: the user's prompt, then the assistant's turn, whose
  content is the serialized messages, preceded by the explanation and the separator line
  \<^verbatim>\<open>---a2ui_JSON---\<close> when the response has a non-empty text. The snapshot it appends
  holds that same turn log. For a call of \<^verbatim>\<open>submit\<close> that runs to its end the context is
  the turn log before the call (empty for a new prompt), and in every run, when the
  response arrives while the state is still \<open>Thinking\<close>, the context is the turn log as
  it is then. In every state a run of the page reaches, the turn log has an even number
  of turns.
\<close>

theorem turn_log_rounds:
  fixes w :: "'m world"
  assumes w: "w = run stringify init_world evs"
    and res: "try_fetch out = Inr (msgs, d)"
  shows
  "even (length (history (home w))) \<and>
   history (submit_finish stringify s req out now) =
     req_history req @
       [\<lparr> role = User, content = req_prompt req \<rparr>,
        \<lparr> role = Assistant,
           content =
             (case d_text d of
                None \<Rightarrow> stringify msgs
              | Some t \<Rightarrow>
                  if t = [] then stringify msgs
                  else t @ [0x0A, 0x2D, 0x2D, 0x2D, 0x61, 0x32, 0x75, 0x69, 0x5F, 0x4A, 0x53,
                            0x4F, 0x4E, 0x2D, 0x2D, 0x2D, 0x0A] @ stringify msgs) \<rparr>] \<and>
   versions (submit_finish stringify s req out now) \<noteq> [] \<and>
   v_history (last (versions (submit_finish stringify s req out now))) =
     history (submit_finish stringify s req out now) \<and>
   (trim prompt \<noteq> [] \<and> state s \<noteq> Thinking \<longrightarrow>
      history (submit stringify s prompt isRefinement out now) =
        (if isRefinement then history s else []) @
          [\<lparr> role = User, content = trim prompt \<rparr>,
           \<lparr> role = Assistant,
              content =
                (case d_text d of
                   None \<Rightarrow> stringify msgs
                 | Some t \<Rightarrow>
                     if t = [] then stringify msgs
                     else t @ [0x0A, 0x2D, 0x2D, 0x2D, 0x61, 0x32, 0x75, 0x69, 0x5F, 0x4A,
                               0x53, 0x4F, 0x4E, 0x2D, 0x2D, 0x2D, 0x0A] @ stringify msgs) \<rparr>] \<and>
      versions (submit stringify s prompt isRefinement out now) \<noteq> [] \<and>
      v_history (last (versions (submit stringify s prompt isRefinement out now))) =
        history (submit stringify s prompt isRefinement out now)) \<and>
   (state (home w) = Thinking \<longrightarrow>
      history (home (step stringify w (Settle (length (pending w) - 1) out now))) =
        history (home w) @
          [\<lparr> role = User, content = lastPrompt (home w) \<rparr>,
           \<lparr> role = Assistant,
              content =
                (case d_text d of
                   None \<Rightarrow> stringify msgs
                 | Some t \<Rightarrow>
                     if t = [] then stringify msgs
                     else t @ [0x0A, 0x2D, 0x2D, 0x2D, 0x61, 0x32, 0x75, 0x69, 0x5F, 0x4A,
                               0x53, 0x4F, 0x4E, 0x2D, 0x2D, 0x2D, 0x0A] @ stringify msgs) \<rparr>])"
proof -
  have "logs_even w" unfolding w by (rule logs_even_run [OF logs_even_init])
  then have e: "even (length (history (home w)))"
    by (simp add: logs_even_iff)
  have ctx: "thinking_ctx w" unfolding w by (rule thinking_ctx_reach)
  have t: "state (home w) = Thinking \<longrightarrow>
      history (home (step stringify w (Settle (length (pending w) - 1) out now))) =
        history (home w) @
          [\<lparr> role = User, content = lastPrompt (home w) \<rparr>,
           \<lparr> role = Assistant, content = assistant_content stringify msgs d \<rparr>]"
    using settle_last_thinking [OF ctx _ res] by blast
  have f: "history (submit_finish stringify s req out now) =
     req_history req @
       [\<lparr> role = User, content = req_prompt req \<rparr>,
        \<lparr> role = Assistant, content = assistant_content stringify msgs d \<rparr>] \<and>
     versions (submit_finish stringify s req out now) \<noteq> [] \<and>
     v_history (last (versions (submit_finish stringify s req out now))) =
       history (submit_finish stringify s req out now)"
    by (simp add: submit_finish_ok [OF res])
  have a: "trim prompt \<noteq> [] \<and> state s \<noteq> Thinking \<longrightarrow>
      history (submit stringify s prompt isRefinement out now) =
        (if isRefinement then history s else []) @
          [\<lparr> role = User, content = trim prompt \<rparr>,
           \<lparr> role = Assistant, content = assistant_content stringify msgs d \<rparr>] \<and>
      versions (submit stringify s prompt isRefinement out now) \<noteq> [] \<and>
      v_history (last (versions (submit stringify s prompt isRefinement out now))) =
        history (submit stringify s prompt isRefinement out now)"
    using res by (simp add: submit_success)
  from e t f a show ?thesis
    unfolding assistant_content_explicit by blast
qed

theorem turn_log_rounds_witness:
  "try_fetch ex_ok_text =
     Inr ([10, 11, 12],
          \<lparr> d_error = None, d_messages = Some [10, 11, 12], d_text = Some (js ''Done'') \<rparr>) \<and>
   length (history (home (run ex_stringify init_world ex_events))) = 4 \<and>
   trim (js ''Add a phone field'') \<noteq> [] \<and> state ex_s1 \<noteq> Thinking \<and>
   history (submit ex_stringify ex_s1 (js ''Add a phone field'') True ex_ok_text 200) =
     history ex_s1 @
       [\<lparr> role = User, content = js ''Add a phone field'' \<rparr>,
        \<lparr> role = Assistant,
           content = [0x44, 0x6F, 0x6E, 0x65,
                      0x0A, 0x2D, 0x2D, 0x2D, 0x61, 0x32, 0x75, 0x69, 0x5F, 0x4A, 0x53, 0x4F,
                      0x4E, 0x2D, 0x2D, 0x2D, 0x0A, 10, 11, 12] \<rparr>] \<and>
   v_history (last (versions (submit ex_stringify ex_s1 (js ''Add a phone field'') True
                                ex_ok_text 200)))
     = history (submit ex_stringify ex_s1 (js ''Add a phone field'') True ex_ok_text 200) \<and>
   state (home (run ex_stringify init_world
                  (ex_events @ [Submit (js ''Make it dark mode'') True]))) = Thinking \<and>
   history (home (run ex_stringify init_world
                  (ex_events @ [Submit (js ''Make it dark mode'') True, Settle 0 ex_ok_text 300]))) =
     v_history ex_v2 @
       [\<lparr> role = User, content = js ''Make it dark mode'' \<rparr>,
        \<lparr> role = Assistant,
           content = [0x44, 0x6F, 0x6E, 0x65,
                      0x0A, 0x2D, 0x2D, 0x2D, 0x61, 0x32, 0x75, 0x69, 0x5F, 0x4A, 0x53, 0x4F,
                      0x4E, 0x2D, 0x2D, 0x2D, 0x0A, 10, 11, 12] \<rparr>]"
proof -
  have p: "trim (js ''Add a phone field'') \<noteq> []" by (simp add: trim_ex_prompt2 js_nonempty)
  have r: "state ex_s1 \<noteq> Thinking" by (simp add: ex_s1_versions)
  have l: "length (history (home (run ex_stringify init_world ex_events))) = 4"
    by (simp add: ex_run ex_s2_fields ex_v2_def)
  have wt: "run ex_stringify init_world (ex_events @ [Submit (js ''Make it dark mode'') True]) =
     \<lparr> home = ex_s2\<lparr> lastPrompt := js ''Make it dark mode'', state := Thinking \<rparr>,
       pending = [\<lparr> req_prompt = js ''Make it dark mode'', req_history = v_history ex_v2 \<rparr>],
       origin = [ex_s1, ex_s2] \<rparr>"
    by (simp add: run_append ex_run, simp add: run_def submit_start_accept js_nonempty
        trim_ex_prompt3 ex_s2_eq)
  note t1 = turn_log_rounds [OF refl try_fetch_ex_ok_text, where stringify = ex_stringify
      and evs = "ex_events" and s = ex_s1 and prompt = "js ''Add a phone field''"
      and isRefinement = True and now = 200]
  note t2 = turn_log_rounds [OF refl try_fetch_ex_ok_text, where stringify = ex_stringify
      and evs = "ex_events @ [Submit (js ''Make it dark mode'') True]" and now = 300]
  from t1 p r have A:
    "history (submit ex_stringify ex_s1 (js ''Add a phone field'') True ex_ok_text 200) =
     history ex_s1 @
       [\<lparr> role = User, content = js ''Add a phone field'' \<rparr>,
        \<lparr> role = Assistant,
           content = js ''Done'' @ [0x0A, 0x2D, 0x2D, 0x2D, 0x61, 0x32, 0x75, 0x69, 0x5F, 0x4A, 0x53, 0x4F,
                      0x4E, 0x2D, 0x2D, 0x2D, 0x0A] @ ex_stringify [10, 11, 12] \<rparr>] \<and>
     v_history (last (versions (submit ex_stringify ex_s1 (js ''Add a phone field'') True
                                ex_ok_text 200)))
       = history (submit ex_stringify ex_s1 (js ''Add a phone field'') True ex_ok_text 200)"
    by (simp add: trim_ex_prompt2 js_nonempty)
  from t2 have B:
    "history (home (step ex_stringify
        (run ex_stringify init_world (ex_events @ [Submit (js ''Make it dark mode'') True]))
        (Settle 0 ex_ok_text 300))) =
     v_history ex_v2 @
       [\<lparr> role = User, content = js ''Make it dark mode'' \<rparr>,
        \<lparr> role = Assistant,
           content = js ''Done'' @ [0x0A, 0x2D, 0x2D, 0x2D, 0x61, 0x32, 0x75, 0x69, 0x5F, 0x4A, 0x53, 0x4F,
                      0x4E, 0x2D, 0x2D, 0x2D, 0x0A] @ ex_stringify [10, 11, 12] \<rparr>]"
    by (simp add: wt ex_s2_fields js_nonempty)
  have st: "state (home (run ex_stringify init_world
                  (ex_events @ [Submit (js ''Make it dark mode'') True]))) = Thinking"
    by (simp add: wt)
  have two: "run ex_stringify init_world
                  (ex_events @ [Submit (js ''Make it dark mode'') True, Settle 0 ex_ok_text 300])
             = step ex_stringify
                 (run ex_stringify init_world (ex_events @ [Submit (js ''Make it dark mode'') True]))
                 (Settle 0 ex_ok_text 300)"
    by (simp add: run_def)
  have d: "js ''Done'' = [0x44, 0x6F, 0x6E, 0x65]" by (simp add: js_def)
  from A B st l p r try_fetch_ex_ok_text show ?thesis
    by (simp add: two d ex_stringify_msgs)
qed

end
